theory Spec2Isabelle
  imports Complex_Main "HOL-Library.Monad_Syntax"
begin

section \<open>Numeric arrays\<close>

text \<open>
  The notebooks compute with NumPy arrays of double-precision numbers. The development
  idealises a double as a real number: a one-dimensional array is a list of reals, a
  two-dimensional array a list of rows. Results that NumPy reports as \<open>nan\<close> or
  \<open>inf\<close> (a division by zero, the mean of an empty array) are written \<open>None\<close>
  where a definition can produce them, and Python exceptions are values of \<open>py_error\<close>.
\<close>

datatype py_error = ZeroDivisionError | NameError string | LinAlgError | ValueError

type_synonym vec = "real list"
type_synonym mat = "real list list"

text \<open>
  \<open>np.zeros\<close>, \<open>np.ones\<close> and \<open>np.eye\<close> for a given shape, the assignment
  \<open>A[i, j] = v\<close>, and the products \<open>np.matmul\<close> of two matrices and of a matrix with
  a one-dimensional array. \<open>matrix_power(A, n)\<close> is the \<open>n\<close>-fold product of \<open>A\<close>
  with itself, the identity for \<open>n = 0\<close>.
\<close>

definition zeros :: "nat \<Rightarrow> nat \<Rightarrow> mat" where
  "zeros r c = replicate r (replicate c 0)"

definition ones :: "nat \<Rightarrow> nat \<Rightarrow> mat" where
  "ones r c = replicate r (replicate c 1)"

definition eye :: "nat \<Rightarrow> nat \<Rightarrow> mat" where
  "eye r c = map (\<lambda>i. map (\<lambda>j. if i = j then 1 else 0) [0..<c]) [0..<r]"

definition set2 :: "mat \<Rightarrow> nat \<Rightarrow> nat \<Rightarrow> real \<Rightarrow> mat" where
  "set2 A i j v = A[i := (A ! i)[j := v]]"

definition ncols :: "mat \<Rightarrow> nat" where
  "ncols A = (case A of [] \<Rightarrow> 0 | r # _ \<Rightarrow> length r)"

definition dot :: "vec \<Rightarrow> vec \<Rightarrow> real" where
  "dot u v = sum_list (map2 (*) u v)"

definition col :: "mat \<Rightarrow> nat \<Rightarrow> vec" where
  "col B j = map (\<lambda>r. r ! j) B"

definition matmul :: "mat \<Rightarrow> mat \<Rightarrow> mat" where
  "matmul A B = map (\<lambda>row. map (\<lambda>j. dot row (col B j)) [0..<ncols B]) A"

definition matvec :: "mat \<Rightarrow> vec \<Rightarrow> vec" where
  "matvec A v = map (\<lambda>row. dot row v) A"

primrec matrix_power :: "mat \<Rightarrow> nat \<Rightarrow> mat" where
  "matrix_power A 0 = eye (length A) (length A)"
| "matrix_power A (Suc n) = matmul (matrix_power A n) A"

section \<open>Ehrenfest diffusion: the transfer matrix\<close>

text \<open>
  The notebook fixes \<open>NB = 10\<close> balls and \<open>nturns = 20\<close>. The loop that fills
  \<open>M\<close> is written for any number of balls \<open>nb\<close>: it starts from the zero matrix and
  visits the rows \<open>0, \<dots>, nb\<close> in order. With \<open>nb = 0\<close> the first iteration divides
  the Python integer \<open>0\<close> by \<open>0\<close> and raises.
\<close>

definition NB :: nat where "NB = 10"
definition nturns :: nat where "nturns = 20"

definition M_step :: "nat \<Rightarrow> nat \<Rightarrow> mat \<Rightarrow> mat" where
  "M_step nb i M =
     (if i = 0 then set2 M i (i + 1) (real (nb - i) / real nb)
      else if i = nb then set2 M i (i - 1) (real i / real nb)
      else set2 (set2 M i (i - 1) (real i / real nb)) i (i + 1) (real (nb - i) / real nb))"

definition M_loop :: "nat \<Rightarrow> mat" where
  "M_loop nb = fold (M_step nb) [0..<nb + 1] (zeros (nb + 1) (nb + 1))"

definition M_matrix :: "nat \<Rightarrow> py_error + mat" where
  "M_matrix nb = (if nb = 0 then Inl ZeroDivisionError else Inr (M_loop nb))"

definition M :: mat where "M = M_loop NB"

definition V1 :: mat where "V1 = set2 (zeros 1 (NB + 1)) 0 3 1"
definition V2 :: vec where "V2 = (replicate (NB + 1) 0)[9 := 1]"

definition PAfter :: mat where
  "PAfter = matmul V1 (matrix_power (ones (NB + 1) (NB + 1)) 1)"

definition P9 :: vec where
  "P9 = matvec PAfter (replicate (NB + 1) 0)"

text \<open>
  A probability vector has nonnegative entries that sum to one; a square matrix is
  row-stochastic when each of its rows is a probability vector. \<open>ehrenfest_entry\<close> is
  the jump probability from state \<open>i\<close> to state \<open>j\<close> of the Ehrenfest model with
  \<open>nb\<close> balls.
\<close>

definition prob_vec :: "vec \<Rightarrow> bool" where
  "prob_vec v = ((\<forall>x \<in> set v. 0 \<le> x) \<and> sum_list v = 1)"

definition row_stochastic :: "nat \<Rightarrow> mat \<Rightarrow> bool" where
  "row_stochastic n A = (length A = n \<and> (\<forall>r \<in> set A. length r = n \<and> prob_vec r))"

definition ehrenfest_entry :: "nat \<Rightarrow> nat \<Rightarrow> nat \<Rightarrow> real" where
  "ehrenfest_entry nb i j =
     (if j + 1 = i then real i / real nb
      else if j = i + 1 then real (nb - i) / real nb
      else 0)"

section \<open>Summary statistics\<close>

text \<open>
  \<open>np.mean\<close> of an empty array and \<open>np.std\<close> of an array with no more than
  \<open>ddof\<close> elements are \<open>nan\<close> (NumPy warns and does not raise); a division of
  floating-point numbers by zero is \<open>inf\<close> or \<open>nan\<close>. The notebooks use
  \<open>ddof = 0\<close> and \<open>ddof = 1\<close> only.
\<close>

definition np_div :: "real \<Rightarrow> real \<Rightarrow> real option" where
  "np_div a b = (if b = 0 then None else Some (a / b))"

definition np_mean :: "real list \<Rightarrow> real option" where
  "np_mean xs = (if xs = [] then None else Some (sum_list xs / real (length xs)))"

definition np_std :: "nat \<Rightarrow> real list \<Rightarrow> real option" where
  "np_std ddof xs =
     (if length xs \<le> ddof then None
      else Some (sqrt (sum_list (map (\<lambda>x. (x - sum_list xs / real (length xs))\<^sup>2) xs)
                         / real (length xs - ddof))))"

subsection \<open>Separation of two samples (Fisher notebook)\<close>

definition calc_separation :: "real list \<Rightarrow> real list \<Rightarrow> real option" where
  "calc_separation x y = do {
     mean_x \<leftarrow> np_mean x;
     mean_y \<leftarrow> np_mean y;
     std_x \<leftarrow> np_std 1 x;
     std_y \<leftarrow> np_std 1 y;
     np_div \<bar>mean_x - mean_y\<bar> (sqrt (std_x\<^sup>2 + std_y\<^sup>2))
   }"

subsection \<open>Resolution with outliers masked (calibration notebook)\<close>

text \<open>
  The relative difference \<open>RD = (dmeas - dknown) / dknown\<close> is computed element by
  element on columns of one data file. An entry whose known distance is zero is not a
  finite number. The index expression \<open>RD[(-2.0 < RD) & (RD < 2.0)]\<close> keeps, in order,
  the entries for which both comparisons hold; a non-finite entry fails at least one of
  them.
\<close>

definition RD :: "real list \<Rightarrow> real list \<Rightarrow> real option list" where
  "RD dmeas dknown = map2 (\<lambda>m k. np_div (m - k) k) dmeas dknown"

definition in_window :: "real option \<Rightarrow> bool" where
  "in_window r = (case r of None \<Rightarrow> False | Some v \<Rightarrow> - 2 < v \<and> v < 2)"

definition window_select :: "real option list \<Rightarrow> real list" where
  "window_select rd = List.map_filter (\<lambda>r. if in_window r then r else None) rd"

definition resolution :: "real option list \<Rightarrow> real option" where
  "resolution rd = np_std 0 (window_select rd)"

definition Res_Raw :: "real list \<Rightarrow> real list \<Rightarrow> real option" where
  "Res_Raw dmeas dknown = resolution (RD dmeas dknown)"

text \<open>
  The cell that applies the calibration computes
  \<^verbatim>\<open>dmeas_calib_lsig = dmeas / (1.0 + lsig_calibfit(lsig, *mfit_lsig.values[:]))\<close>,
  then the relative difference of the calibrated distance and its resolution with the
  same mask. No cell of the notebook binds \<open>lsig_calibfit\<close> or \<open>mfit_lsig\<close>: the
  cell that should fit the effect of \<open>lsig\<close> holds comments only. The two arguments
  \<open>lsig_calibfit\<close> and \<open>mfit_lsig\<close> say what the reader has bound, if anything: a fit
  function of one \<open>lsig\<close> value and the parameters, applied element by element, and
  the fitted parameter values. Python looks up the called function before its arguments.
\<close>

definition dmeas_calib_lsig ::
    "(real \<Rightarrow> real list \<Rightarrow> real) option \<Rightarrow> real list option
      \<Rightarrow> real list \<Rightarrow> real list \<Rightarrow> py_error + real option list" where
  "dmeas_calib_lsig lsig_calibfit mfit_lsig dmeas lsig =
     (case lsig_calibfit of
        None \<Rightarrow> Inl (NameError ''lsig_calibfit'')
      | Some f \<Rightarrow>
          (case mfit_lsig of
             None \<Rightarrow> Inl (NameError ''mfit_lsig'')
           | Some p \<Rightarrow> Inr (map2 (\<lambda>d l. np_div d (1.0 + f l p)) dmeas lsig)))"

definition RD_calib_lsig :: "real option list \<Rightarrow> real list \<Rightarrow> real option list" where
  "RD_calib_lsig dmeas_calib dknown =
     map2 (\<lambda>c k. do { d \<leftarrow> c; np_div (d - k) k }) dmeas_calib dknown"

text \<open>
  The cell as a whole: the first statement that raises ends it, and \<open>Res_calib_lsig\<close>
  is assigned only when \<open>dmeas_calib_lsig\<close> was.
\<close>

definition Res_calib_lsig ::
    "(real \<Rightarrow> real list \<Rightarrow> real) option \<Rightarrow> real list option
      \<Rightarrow> real list \<Rightarrow> real list \<Rightarrow> real list \<Rightarrow> py_error + real option" where
  "Res_calib_lsig lsig_calibfit mfit_lsig dmeas lsig dknown =
     (case dmeas_calib_lsig lsig_calibfit mfit_lsig dmeas lsig of
        Inl e \<Rightarrow> Inl e
      | Inr dmeas_calib \<Rightarrow> Inr (resolution (RD_calib_lsig dmeas_calib dknown)))"

section \<open>Analytical straight-line fit\<close>

text \<open>
  One pass of the notebook's loop body, for \<open>Npoints\<close> data points \<open>y\<close> with the
  common uncertainty \<open>sigmay\<close>. The abscissas are \<open>x = np.arange(Npoints) + 1\<close>, an
  array of 64-bit signed integers, so \<open>x**2\<close>, \<open>np.sum(x)\<close>, \<open>np.sum(x**2)\<close>,
  \<open>sumxx * sum\<close>, \<open>sumx**2\<close> and their difference \<open>Delta\<close> are computed in 64-bit
  integers and wrap around; \<open>wrap64\<close> is the value a 64-bit signed integer holds for
  a mathematical result. Where an integer meets a floating-point number it is converted.
  \<open>ey\<close> is \<open>sigmay\<close> times an array of ones of the shape of \<open>x\<close>. The survival
  function of the chi-square distribution, \<open>scipy.stats.chi2.sf\<close>, is a library
  function and a parameter here. The notebook's variable \<open>sum\<close> is written \<open>sum'\<close>.
  The uncertainties on the two parameters, which the notebook also prints, are not part
  of the record. In the notebook \<open>y\<close> has \<open>Npoints\<close> entries. A division by zero
  gives \<open>inf\<close> or \<open>nan\<close> in NumPy and zero here; nothing below is stated where a
  divisor \<open>Delta\<close> is zero.
\<close>

definition wrap64 :: "int \<Rightarrow> int" where
  "wrap64 z = (z + 2 ^ 63) mod 2 ^ 64 - 2 ^ 63"

definition x_array :: "nat \<Rightarrow> int list" where
  "x_array Npoints = map (\<lambda>k. wrap64 (int k + 1)) [0..<Npoints]"

record fit_result =
  Delta :: int
  alpha0_calc :: real
  alpha1_calc :: real
  Chi2_calc :: real
  Ndof_calc :: int
  Prob_calc :: real

definition analytical_fit :: "(real \<Rightarrow> int \<Rightarrow> real) \<Rightarrow> real \<Rightarrow> nat \<Rightarrow> real list \<Rightarrow> fit_result" where
  "analytical_fit chi2_sf sigmay Npoints y =
     (let x = x_array Npoints;
          ey = map (\<lambda>_. sigmay * 1) x;
          sum' = int (length x);
          sumx = wrap64 (sum_list x);
          sumxx = wrap64 (sum_list (map (\<lambda>v. wrap64 (v * v)) x));
          sumy = sum_list y;
          sumxy = sum_list (map2 (\<lambda>v w. real_of_int v * w) x y);
          Delta = wrap64 (wrap64 (sumxx * sum') - wrap64 (sumx * sumx));
          alpha0 = (sumy * real_of_int sumxx - sumxy * real_of_int sumx) / real_of_int Delta;
          alpha1 = (sumxy * real_of_int sum' - sumy * real_of_int sumx) / real_of_int Delta;
          Chi2 = fold (\<lambda>i c. c + ((y ! i - (alpha0 + alpha1 * real_of_int (x ! i))) / ey ! i)\<^sup>2)
                   [0..<Npoints] 0;
          Ndof = int Npoints - 2
      in \<lparr>Delta = Delta, alpha0_calc = alpha0, alpha1_calc = alpha1, Chi2_calc = Chi2,
           Ndof_calc = Ndof, Prob_calc = chi2_sf Chi2 Ndof\<rparr>)"

text \<open>
  The chi-square of the line \<open>a + b x\<close> through the data, as the notebook's note
  defines it; used to state that the computed parameters minimise it.
\<close>

definition chi2_line :: "real \<Rightarrow> real list \<Rightarrow> real list \<Rightarrow> real \<Rightarrow> real \<Rightarrow> real" where
  "chi2_line sigmay x y a b = (\<Sum>i < length x. ((y ! i - a - b * x ! i) / sigmay)\<^sup>2)"

section \<open>Profile of a two-dimensional histogram (calibration notebook)\<close>

subsection \<open>The library call \<open>np.histogram2d\<close>\<close>

text \<open>
  \<open>np.histogram2d(x, y, bins=(nx, ny), range=[(xlo, xhi), (ylo, yhi)])\<close> is a NumPy
  routine. Its documented behaviour for this form of the arguments: the two arrays must
  have the same length and each number of bins must be positive, else it raises
  \<open>ValueError\<close>, as it does for a range whose upper end is below its lower end; a range
  of width zero is widened by one half on each side; the edges divide each range into
  bins of equal width; every bin is closed on the left and open on the right, except the
  last, which also contains the upper end of the range; points outside the range are not
  counted. The counts are whole numbers.
\<close>

definition linspace :: "real \<Rightarrow> real \<Rightarrow> nat \<Rightarrow> real list" where
  "linspace lo hi n = map (\<lambda>k. lo + (hi - lo) * real k / real n) [0..<n + 1]"

definition outer_edges :: "real \<times> real \<Rightarrow> real \<times> real" where
  "outer_edges r = (if fst r = snd r then (fst r - 1/2, snd r + 1/2) else r)"

definition bin_of :: "real list \<Rightarrow> real \<Rightarrow> nat option" where
  "bin_of edges v =
     (if v < hd edges \<or> last edges < v then None
      else if v = last edges then Some (length edges - 2)
      else Some (length (filter (\<lambda>e. e \<le> v) edges) - 1))"

definition histogram2d ::
    "real list \<Rightarrow> real list \<Rightarrow> nat \<times> nat \<Rightarrow> (real \<times> real) \<times> (real \<times> real)
      \<Rightarrow> py_error + (nat list list \<times> real list \<times> real list)" where
  "histogram2d x y bins xyrange =
     (if length x \<noteq> length y then Inl ValueError
      else if fst bins = 0 \<or> snd bins = 0 then Inl ValueError
      else if snd (fst xyrange) < fst (fst xyrange) \<or> snd (snd xyrange) < fst (snd xyrange)
        then Inl ValueError
      else
        let xedges = linspace (fst (outer_edges (fst xyrange))) (snd (outer_edges (fst xyrange)))
                       (fst bins);
            yedges = linspace (fst (outer_edges (snd xyrange))) (snd (outer_edges (snd xyrange)))
                       (snd bins);
            cells = zip (map (bin_of xedges) x) (map (bin_of yedges) y);
            H = map (\<lambda>i. map (\<lambda>j. length (filter (\<lambda>c. c = (Some i, Some j)) cells))
                             [0..<snd bins])
                    [0..<fst bins]
        in Inr (H, xedges, yedges))"

subsection \<open>The function \<open>profile_x\<close>\<close>

text \<open>
  \<open>a[mask]\<close> with a Boolean array \<open>mask\<close> of the length of \<open>a\<close> keeps, in order, the
  elements of \<open>a\<close> at which \<open>mask\<close> holds. \<open>H * y_center\<close> multiplies every row of
  \<open>H\<close> element by element with \<open>y_center\<close>, and \<open>.sum(1)\<close> adds up each row.
\<close>

definition mask_select :: "bool list \<Rightarrow> 'a list \<Rightarrow> 'a list" where
  "mask_select m a = map snd (filter fst (zip m a))"

definition centers :: "real list \<Rightarrow> real list" where
  "centers edges = map2 (\<lambda>a b. 0.5 * (a + b)) (tl edges) (butlast edges)"

definition wsums :: "nat list list \<Rightarrow> real list" where
  "wsums H = map (\<lambda>row. real (sum_list row)) H"

definition mask_H :: "nat list list \<Rightarrow> bool list" where
  "mask_H H = map (\<lambda>w. 0 < w) (wsums H)"

definition masked_wsums :: "nat list list \<Rightarrow> real list" where
  "masked_wsums H = mask_select (mask_H H) (wsums H)"

definition profile_x ::
    "real list \<Rightarrow> real list \<Rightarrow> nat \<times> nat \<Rightarrow> (real \<times> real) \<times> (real \<times> real)
      \<Rightarrow> py_error + (real list \<times> real list \<times> real list)" where
  "profile_x x y bins xyrange =
     (case histogram2d x y bins xyrange of
        Inl e \<Rightarrow> Inl e
      | Inr (H, xedges, yedges) \<Rightarrow>
          let x_center = centers xedges;
              y_center = centers yedges;
              mean = map2 (/)
                  (mask_select (mask_H H) (map (\<lambda>row. sum_list (map2 (\<lambda>h c. real h * c) row y_center)) H))
                  (masked_wsums H);
              mean_squared = map2 (/)
                  (mask_select (mask_H H) (map (\<lambda>row. sum_list (map2 (\<lambda>h c. real h * c\<^sup>2) row y_center)) H))
                  (masked_wsums H);
              std = map2 (/) (map sqrt (map2 (-) mean_squared (map (\<lambda>m. m\<^sup>2) mean)))
                             (map sqrt (masked_wsums H))
          in Inr (mask_select (mask_H H) x_center, mean, std))"

text \<open>
  The mean and the variance of the bin centres \<open>c\<close> of one row of the histogram,
  weighted by the counts \<open>h\<close> of that row; used to state what \<open>profile_x\<close> returns.
\<close>

definition wmean :: "nat list \<Rightarrow> real list \<Rightarrow> real" where
  "wmean h c = (\<Sum>j < length h. real (h ! j) * c ! j) / (\<Sum>j < length h. real (h ! j))"

definition wvar :: "nat list \<Rightarrow> real list \<Rightarrow> real" where
  "wvar h c = (\<Sum>j < length h. real (h ! j) * (c ! j - wmean h c)\<^sup>2) / (\<Sum>j < length h. real (h ! j))"

text \<open>
  The reduction as the description of \<open>profile_x\<close> words it: for every non-empty
  x-bin, its centre, the weighted mean and the weighted standard deviation of y.
\<close>

definition profile_x_described ::
    "real list \<Rightarrow> real list \<Rightarrow> nat \<times> nat \<Rightarrow> (real \<times> real) \<times> (real \<times> real)
      \<Rightarrow> py_error + (real list \<times> real list \<times> real list)" where
  "profile_x_described x y bins xyrange =
     (case histogram2d x y bins xyrange of
        Inl e \<Rightarrow> Inl e
      | Inr (H, xedges, yedges) \<Rightarrow>
          let nonempty = filter (\<lambda>i. 0 < sum_list (H ! i)) [0..<length H]
          in Inr (map (\<lambda>i. centers xedges ! i) nonempty,
                  map (\<lambda>i. wmean (H ! i) (centers yedges)) nonempty,
                  map (\<lambda>i. sqrt (wvar (H ! i) (centers yedges))) nonempty))"

section \<open>Fisher discriminant (Iris notebook)\<close>

text \<open>
  The data file has one row per flower: four measurements and the species, which the
  notebook shifts to \<open>0\<close>, \<open>1\<close>, \<open>2\<close>. \<open>X\<close> holds the measurements and \<open>y\<close> the
  species. The loop over variables and species stores in \<open>mu[ispec, ivar]\<close> the mean
  of variable \<open>ivar\<close> over the rows of species \<open>ispec\<close>.
\<close>

definition nvar :: nat where "nvar = 4"

definition mu :: "real list list \<Rightarrow> nat list \<Rightarrow> nat \<Rightarrow> nat \<Rightarrow> real option" where
  "mu X y ispec ivar =
     np_mean (map (\<lambda>data_spec. data_spec ! ivar) (mask_select (map (\<lambda>l. l = ispec) y) X))"

text \<open>
  The two covariance matrices and the weights are left for the reader to fill in; the
  notebook holds placeholders.
\<close>

definition mat_add :: "mat \<Rightarrow> mat \<Rightarrow> mat" where
  "mat_add A B = map2 (map2 (+)) A B"

definition covmat_Vers :: mat where "covmat_Vers = ones 4 4"

definition covmat_Virg :: mat where "covmat_Virg = eye 4 4"

definition covmat_comb :: mat where "covmat_comb = mat_add covmat_Vers covmat_Virg"

text \<open>
  \<open>numpy.linalg.inv\<close> is a library routine: it returns the inverse of a square
  nonsingular matrix and raises \<open>LinAlgError\<close> for a singular one. It is modelled by
  Gauss-Jordan elimination in exact arithmetic on the matrix extended by the identity:
  for each column, a row at or below the diagonal with a nonzero entry in that column is
  moved to the diagonal and scaled, and the column is cleared in all other rows.
\<close>

definition gauss_jordan_step :: "nat \<Rightarrow> mat \<Rightarrow> mat option" where
  "gauss_jordan_step c A =
     (case find (\<lambda>p. A ! p ! c \<noteq> 0) [c..<length A] of
        None \<Rightarrow> None
      | Some p \<Rightarrow>
          let A1 = A[c := A ! p, p := A ! c];
              rowc = map (\<lambda>v. v / (A1 ! c ! c)) (A1 ! c)
          in Some (map (\<lambda>i. if i = c then rowc
                               else map2 (\<lambda>v w. v - A1 ! i ! c * w) (A1 ! i) rowc)
                    [0..<length A]))"

definition inv_matrix :: "mat \<Rightarrow> py_error + mat" where
  "inv_matrix A =
     (if \<exists>row \<in> set A. length row \<noteq> length A then Inl LinAlgError
      else case fold (\<lambda>c acc. Option.bind acc (gauss_jordan_step c)) [0..<length A]
                  (Some (map2 (@) A (eye (length A) (length A)))) of
             None \<Rightarrow> Inl LinAlgError
           | Some R \<Rightarrow> Inr (map (drop (length A)) R))"

definition covmat_comb_inv :: "py_error + mat" where
  "covmat_comb_inv = inv_matrix covmat_comb"

text \<open>The notebook's \<open>wf\<close>.\<close>

definition wf_fisher :: vec where "wf_fisher = [0, 1, 2, 3]"

text \<open>
  The weights as the description of the Fisher discriminant words them: the inverse of
  the combined covariance matrix applied to the difference of the mean vectors of the
  species \<open>a\<close> and \<open>b\<close>.
\<close>

definition wf_described :: "real list list \<Rightarrow> nat list \<Rightarrow> nat \<Rightarrow> nat \<Rightarrow> vec option" where
  "wf_described X y a b =
     (case covmat_comb_inv of
        Inl e \<Rightarrow> None
      | Inr B \<Rightarrow>
          map_option (matvec B)
            (those (map (\<lambda>ivar. do { ma \<leftarrow> mu X y a ivar; mb \<leftarrow> mu X y b ivar; Some (ma - mb) })
                        [0..<nvar])))"

section \<open>Accept/reject sampling of \<open>f(x) = 2x\<close>\<close>

text \<open>
  \<open>r.uniform(low, high)\<close> takes the next variate \<open>u\<close> of the generator, a number in
  \<open>[0, 1)\<close>, and returns \<open>low + (high - low) u\<close>. The generator is a sequence
  \<open>draws\<close> of such variates together with the number of variates taken so far.
\<close>

definition xmin :: real where "xmin = 0.0"
definition xmax :: real where "xmax = 1.0"
definition ymin :: real where "ymin = 0.0"
definition ymax :: real where "ymax = 2.0"

definition uniform :: "real \<Rightarrow> real \<Rightarrow> real \<Rightarrow> real" where
  "uniform low high u = low + (high - low) * u"

text \<open>
  The inner \<open>while True\<close> loop, from the try counter and the position in the
  sequence of variates: it returns the accepted candidate \<open>x_test\<close>, its envelope draw
  \<open>y_test\<close>, the new try counter and the new position, or does not return.
\<close>

partial_function (option) try_until_accept ::
    "(nat \<Rightarrow> real) \<Rightarrow> nat \<Rightarrow> nat \<Rightarrow> (real \<times> real \<times> nat \<times> nat) option" where
  "try_until_accept draws N_try pos =
     (let N_try' = N_try + 1;
          x_test = uniform xmin xmax (draws pos);
          y_test = uniform ymin ymax (draws (pos + 1))
      in if y_test < 2 * x_test then Some (x_test, y_test, N_try', pos + 2)
         else try_until_accept draws N_try' (pos + 2))"

text \<open>
  The outer loop over \<open>i\<close> in \<open>range(N_points)\<close> assigns the accepted candidate to
  \<open>x_accepted[i]\<close>. Everything the cell changes is part of the state: the try
  counter, the array, the number of variates drawn from the generator, and the notebook's
  global variables \<open>i\<close>, \<open>x_test\<close> and \<open>y_test\<close> (the fields \<open>var_i\<close>,
  \<open>var_x_test\<close> and \<open>var_y_test\<close>; \<open>None\<close> for a variable that is not bound). The
  cell first sets \<open>N_try\<close> to zero, \<open>ymin\<close> and \<open>ymax\<close> to the constants above
  and \<open>x_accepted\<close> to \<open>N_points\<close> zeros; no earlier cell of the notebook binds
  \<open>i\<close>, \<open>x_test\<close> or \<open>y_test\<close>.
\<close>

record sampler =
  N_try :: nat
  x_accepted :: "real list"
  drawn :: nat
  var_i :: "nat option"
  var_x_test :: "real option"
  var_y_test :: "real option"

fun sample_points :: "(nat \<Rightarrow> real) \<Rightarrow> nat list \<Rightarrow> sampler \<Rightarrow> sampler option" where
  "sample_points draws [] s = Some s"
| "sample_points draws (i # is) s =
     (case try_until_accept draws (N_try s) (drawn s) of
        None \<Rightarrow> None
      | Some (x_test, y_test, n, p) \<Rightarrow>
          sample_points draws is
            (s\<lparr>N_try := n, x_accepted := (x_accepted s)[i := x_test], drawn := p,
               var_i := Some i, var_x_test := Some x_test, var_y_test := Some y_test\<rparr>))"

definition accept_reject :: "(nat \<Rightarrow> real) \<Rightarrow> nat \<Rightarrow> nat \<Rightarrow> sampler option" where
  "accept_reject draws N_points p0 =
     sample_points draws [0..<N_points]
       \<lparr>N_try = 0, x_accepted = replicate N_points 0, drawn = p0,
        var_i = None, var_x_test = None, var_y_test = None\<rparr>"

text \<open>
  The candidate, the envelope draw and the outcome of try number \<open>k\<close> (counting from
  zero) of a run that starts at position \<open>p0\<close> of the sequence of variates.
\<close>

definition x_of :: "(nat \<Rightarrow> real) \<Rightarrow> nat \<Rightarrow> nat \<Rightarrow> real" where
  "x_of draws p0 k = uniform xmin xmax (draws (p0 + 2 * k))"

definition y_of :: "(nat \<Rightarrow> real) \<Rightarrow> nat \<Rightarrow> nat \<Rightarrow> real" where
  "y_of draws p0 k = uniform ymin ymax (draws (p0 + 2 * k + 1))"

definition accepted :: "(nat \<Rightarrow> real) \<Rightarrow> nat \<Rightarrow> nat \<Rightarrow> bool" where
  "accepted draws p0 k = (y_of draws p0 k < 2 * x_of draws p0 k)"

text \<open>
  \<open>ks\<close> lists, in increasing order, exactly the accepted tries among the tries
  \<open>lo, \<dots>, hi - 1\<close>, and the last of these tries is accepted.
\<close>

definition tries_ok ::
    "(nat \<Rightarrow> real) \<Rightarrow> nat \<Rightarrow> nat \<Rightarrow> nat \<Rightarrow> nat list \<Rightarrow> bool" where
  "tries_ok draws p0 lo hi ks =
     (sorted_wrt (<) ks \<and> (\<forall>k \<in> set ks. lo \<le> k \<and> k < hi)
      \<and> (\<forall>k. lo \<le> k \<and> k < hi \<longrightarrow> (accepted draws p0 k \<longleftrightarrow> k \<in> set ks))
      \<and> lo \<le> hi \<and> hi = (if ks = [] then lo else last ks + 1))"

text \<open>A sequence of variates whose first try is rejected and all later ones accepted.\<close>

definition example_draws :: "nat \<Rightarrow> real" where
  "example_draws p = (if p = 1 then 3/4 else if even p then 1/2 else 1/4)"

section \<open>Saving figures\<close>

text \<open>
  What a notebook cell does to the file system depends on the names bound when it runs:
  a method call on a name that no earlier statement has bound raises \<open>NameError\<close>
  before anything is written. A notebook run is followed through the list of names
  bound so far and the list of files written so far; \<open>fig.savefig(fname)\<close> writes the
  file \<open>fname\<close> when \<open>fig\<close> is bound.
\<close>

record notebook =
  names :: "string list"
  files :: "string list"

definition bind_names :: "string list \<Rightarrow> notebook \<Rightarrow> notebook" where
  "bind_names ns nb = nb\<lparr>names := names nb @ ns\<rparr>"

definition savefig :: "string \<Rightarrow> string \<Rightarrow> notebook \<Rightarrow> py_error + notebook" where
  "savefig fig fname nb =
     (if fig \<in> set (names nb) then Inr (nb\<lparr>files := files nb @ [fname]\<rparr>)
      else Inl (NameError fig))"

text \<open>
  The calibration notebook. Before the cell that computes the raw resolution, the
  earlier cells have bound the imported modules, the settings, \<open>profile_x\<close>, the
  columns of the data file and the loop variable of the printing cell; no file has been
  written. The cell binds \<open>RD\<close>, \<open>Res_Raw\<close>, the histogram settings and the figure
  \<open>fig_RD\<close> with its axes, and ends with
  \<^verbatim>\<open>if (SaveFigures): fig_rel.savefig('Resolution_Uncalibrated.pdf', dpi=600)\<close>.
\<close>

definition calibration_before_RD :: notebook where
  "calibration_before_RD =
     \<lparr>names = [''np'', ''plt'', ''Minuit'', ''cost'', ''stats'', ''verbose'', ''Nverbose'',
                ''SaveFigures'', ''profile_x'', ''filename'', ''dknown'', ''dmeas'', ''lsig'',
                ''lbkg'', ''temp'', ''tsky'', ''i''],
      files = []\<rparr>"

definition cell_RD :: "bool \<Rightarrow> notebook \<Rightarrow> py_error + notebook" where
  "cell_RD SaveFigures nb =
     (let nb = bind_names [''RD'', ''Res_Raw'', ''xminRD'', ''xmaxRD'', ''NbinsRD'', ''fig_RD'',
                           ''ax_RD''] nb
      in if SaveFigures then savefig ''fig_rel'' ''Resolution_Uncalibrated.pdf'' nb else Inr nb)"

text \<open>
  For comparison, the cell of the pi-estimate notebook that draws the hit distribution:
  it binds the figure \<open>fig1\<close> and ends with
  \<^verbatim>\<open>if save_plots: fig1.savefig("HitDist.pdf")\<close>.
\<close>

definition pi_before_HitDist :: notebook where
  "pi_before_HitDist =
     \<lparr>names = [''np'', ''plt'', ''Minuit'', ''cost'', ''stats'', ''save_plots'', ''r'',
                ''N_experiments'', ''N_points'', ''pi_true'', ''pi_dist'', ''iexp'', ''hit_dist_x'',
                ''hit_dist_y'', ''Nhit'', ''f'', ''sf'', ''pi_estm'', ''pi_error'', ''pi_mean'',
                ''pi_std'', ''unc_pi_mean''],
      files = []\<rparr>"

definition cell_HitDist :: "bool \<Rightarrow> notebook \<Rightarrow> py_error + notebook" where
  "cell_HitDist save_plots nb =
     (let nb = bind_names [''fig1'', ''ax1'', ''mask_inside'', ''mask_outside''] nb
      in if save_plots then savefig ''fig1'' ''HitDist.pdf'' nb else Inr nb)"

section \<open>Verified properties\<close>

subsection \<open>Ehrenfest transfer matrix\<close>

lemma set2_length [simp]: "length (set2 A i j v) = length A"
  by (simp add: set2_def)

lemma set2_row_length [simp]: "length (set2 A i j v ! k) = length (A ! k)"
  by (cases "i < length A") (auto simp add: set2_def nth_list_update list_update_beyond)

lemma set2_nth:
  "i < length A \<Longrightarrow> j < length (A ! i) \<Longrightarrow>
   set2 A i j v ! k ! l = (if k = i \<and> l = j then v else A ! k ! l)"
  by (cases "k = i"; cases "l = j") (simp_all add: set2_def)

lemma M_step_length [simp]: "length (M_step nb i A) = length A"
  by (simp add: M_step_def)

lemma M_step_row_length [simp]: "length (M_step nb i A ! k) = length (A ! k)"
  by (simp add: M_step_def)

lemma M_step_nth:
  assumes "0 < nb" "i \<le> nb" "length A = Suc nb" "length (A ! i) = Suc nb"
    and "k \<le> nb" "l \<le> nb" "\<forall>l \<le> nb. A ! i ! l = 0"
  shows "M_step nb i A ! k ! l = (if k = i then ehrenfest_entry nb i l else A ! k ! l)"
  using assms by (auto simp add: M_step_def set2_nth ehrenfest_entry_def)

lemma M_prefix:
  assumes "0 < nb" "n \<le> Suc nb"
  shows "length (fold (M_step nb) [0..<n] (zeros (Suc nb) (Suc nb))) = Suc nb
    \<and> (\<forall>k \<le> nb. length (fold (M_step nb) [0..<n] (zeros (Suc nb) (Suc nb)) ! k) = Suc nb
    \<and> (\<forall>l \<le> nb. fold (M_step nb) [0..<n] (zeros (Suc nb) (Suc nb)) ! k ! l
          = (if k < n then ehrenfest_entry nb k l else 0)))"
  using assms(2)
proof (induction n)
  case 0
  show ?case by (simp add: zeros_def del: replicate.simps)
next
  case (Suc n)
  let ?A = "fold (M_step nb) [0..<n] (zeros (Suc nb) (Suc nb))"
  from Suc have IH: "length ?A = Suc nb"
    "\<And>k. k \<le> nb \<Longrightarrow> length (?A ! k) = Suc nb"
    "\<And>k l. k \<le> nb \<Longrightarrow> l \<le> nb \<Longrightarrow> ?A ! k ! l = (if k < n then ehrenfest_entry nb k l else 0)"
    by simp_all
  from Suc.prems have n: "n \<le> nb" by simp
  have zero: "\<forall>l \<le> nb. ?A ! n ! l = 0" using IH(3) n by simp
  have step: "\<And>k l. k \<le> nb \<Longrightarrow> l \<le> nb \<Longrightarrow>
      M_step nb n ?A ! k ! l = (if k = n then ehrenfest_entry nb n l else ?A ! k ! l)"
    using M_step_nth [OF assms(1) n IH(1) IH(2) [OF n] _ _ zero] by blast
  show ?case
    by (simp add: IH step)
qed

lemma M_loop_dims:
  assumes "0 < nb"
  shows "length (M_loop nb) = Suc nb" and "k \<le> nb \<Longrightarrow> length (M_loop nb ! k) = Suc nb"
  using M_prefix [OF assms, of "Suc nb"] by (simp_all add: M_loop_def)

lemma M_loop_nth:
  assumes "0 < nb" "k \<le> nb" "l \<le> nb"
  shows "M_loop nb ! k ! l = ehrenfest_entry nb k l"
  using M_prefix [OF assms(1), of "Suc nb"] assms(2,3) by (simp add: M_loop_def)

lemma ehrenfest_entry_nonneg: "0 \<le> ehrenfest_entry nb i j"
  by (simp add: ehrenfest_entry_def)

lemma ehrenfest_row_sum:
  assumes "0 < nb" "i \<le> nb"
  shows "(\<Sum>j < nb + 1. ehrenfest_entry nb i j) = 1"
proof -
  have split: "\<And>j. ehrenfest_entry nb i j =
      (if j = i - 1 then (if 0 < i then real i / real nb else 0) else 0)
    + (if j = i + 1 then real (nb - i) / real nb else 0)"
    by (auto simp add: ehrenfest_entry_def)
  have "(\<Sum>j < nb + 1. ehrenfest_entry nb i j)
      = (if 0 < i then real i / real nb else 0)
      + (if i + 1 \<le> nb then real (nb - i) / real nb else 0)"
    using assms by (simp add: split sum.distrib sum.delta del: sum.lessThan_Suc) (auto)
  also have "\<dots> = 1"
    using assms by (auto simp add: field_simps of_nat_diff)
  finally show ?thesis .
qed


lemma sum_list_lessThan: "sum_list xs = (\<Sum>k < length xs. xs ! k)"
  by (simp add: sum_list_sum_nth atLeast0LessThan)

lemma dot_sum: "length u = length v \<Longrightarrow> dot u v = (\<Sum>k < length u. u ! k * v ! k)"
  by (simp add: dot_def sum_list_lessThan)

lemma M_loop_row_sum:
  assumes "0 < nb" "i \<le> nb"
  shows "sum_list (M_loop nb ! i) = 1"
proof -
  have "sum_list (M_loop nb ! i) = (\<Sum>j < nb + 1. M_loop nb ! i ! j)"
    using M_loop_dims(2) [OF assms] by (simp add: sum_list_lessThan)
  also have "\<dots> = (\<Sum>j < nb + 1. ehrenfest_entry nb i j)"
    by (rule sum.cong) (simp_all add: M_loop_nth assms)
  finally show ?thesis by (simp only: ehrenfest_row_sum [OF assms])
qed

lemma M_loop_stochastic:
  assumes "0 < nb"
  shows "row_stochastic (nb + 1) (M_loop nb)"
proof -
  have "length r = nb + 1 \<and> prob_vec r" if "r \<in> set (M_loop nb)" for r
  proof -
    from that obtain i where i: "i < length (M_loop nb)" "r = M_loop nb ! i"
      by (auto simp add: in_set_conv_nth)
    then have le: "i \<le> nb" using M_loop_dims(1) [OF assms] by simp
    have len: "length r = nb + 1" using i(2) M_loop_dims(2) [OF assms le] by simp
    have "0 \<le> x" if "x \<in> set r" for x
    proof -
      from that obtain j where "j < length r" "x = r ! j"
        by (auto simp add: in_set_conv_nth)
      then show ?thesis
        using len i(2) M_loop_nth [OF assms le, of j] by (simp add: ehrenfest_entry_nonneg)
    qed
    then show ?thesis
      using len i(2) M_loop_row_sum [OF assms le] by (simp add: prob_vec_def)
  qed
  then show ?thesis
    using M_loop_dims(1) [OF assms] by (simp add: row_stochastic_def)
qed

subsection \<open>Products with a row-stochastic matrix\<close>

lemma ncols_stochastic: "row_stochastic n B \<Longrightarrow> ncols B = n"
  by (cases B) (simp_all add: row_stochastic_def ncols_def)

lemma col_nth: "k < length B \<Longrightarrow> col B j ! k = B ! k ! j"
  by (simp add: col_def)

lemma vecmat_prob:
  assumes B: "row_stochastic n B" and v: "length v = n" "prob_vec v"
  shows "length (map (\<lambda>j. dot v (col B j)) [0..<ncols B]) = n
    \<and> prob_vec (map (\<lambda>j. dot v (col B j)) [0..<ncols B])"
proof -
  have lenB: "length B = n" and rows: "\<And>k. k < n \<Longrightarrow> length (B ! k) = n \<and> prob_vec (B ! k)"
    using B by (simp_all add: row_stochastic_def)
  have v0: "\<And>k. k < n \<Longrightarrow> 0 \<le> v ! k" and v1: "(\<Sum>k < n. v ! k) = 1"
    using v by (simp_all add: prob_vec_def sum_list_lessThan [of v])
  have B0: "\<And>k j. k < n \<Longrightarrow> j < n \<Longrightarrow> 0 \<le> B ! k ! j"
    using rows by (simp add: prob_vec_def)
  have B1: "(\<Sum>j < n. B ! k ! j) = 1" if "k < n" for k
    using rows [OF that] sum_list_lessThan [of "B ! k"] by (auto simp add: prob_vec_def)
  have d: "dot v (col B j) = (\<Sum>k < n. v ! k * B ! k ! j)" for j
    using v(1) lenB by (simp add: dot_sum col_def)
  let ?w = "map (\<lambda>j. dot v (col B j)) [0..<ncols B]"
  have len: "length ?w = n" by (simp add: ncols_stochastic [OF B])
  have nn: "0 \<le> x" if "x \<in> set ?w" for x
  proof -
    from that obtain j where "j < n" "x = dot v (col B j)"
      by (auto simp add: ncols_stochastic [OF B])
    then show ?thesis by (auto simp add: d intro!: sum_nonneg mult_nonneg_nonneg v0 B0)
  qed
  have "sum_list ?w = (\<Sum>j < n. \<Sum>k < n. v ! k * B ! k ! j)"
    by (simp add: sum_list_lessThan ncols_stochastic [OF B] d)
  also have "\<dots> = (\<Sum>k < n. \<Sum>j < n. v ! k * B ! k ! j)"
    by (rule sum.swap)
  also have "\<dots> = (\<Sum>k < n. v ! k * (\<Sum>j < n. B ! k ! j))"
    by (simp add: sum_distrib_left)
  also have "\<dots> = 1"
    by (simp add: B1 v1)
  finally show ?thesis using len nn by (simp add: prob_vec_def)
qed

lemma matmul_rows_prob:
  assumes "row_stochastic n B" "\<forall>r \<in> set A. length r = n \<and> prob_vec r"
  shows "\<forall>r \<in> set (matmul A B). length r = n \<and> prob_vec r"
  using assms vecmat_prob [OF assms(1)] by (auto simp add: matmul_def)

lemma eye_stochastic: "row_stochastic n (eye n n)"
proof -
  have "sum_list (map (\<lambda>j. if i = j then 1 else 0) [0..<n]) = (1::real)" if "i < n" for i
    using that by (simp add: sum_list_lessThan sum.delta')
  then show ?thesis
    by (auto simp add: row_stochastic_def eye_def prob_vec_def)
qed

lemma matrix_power_stochastic:
  assumes "row_stochastic n A"
  shows "row_stochastic n (matrix_power A k)"
proof (induction k)
  case 0
  show ?case using assms eye_stochastic [of n] by (simp add: row_stochastic_def)
next
  case (Suc k)
  then have "\<forall>r \<in> set (matrix_power A k). length r = n \<and> prob_vec r"
    by (simp add: row_stochastic_def)
  from matmul_rows_prob [OF assms this]
  have "\<forall>r \<in> set (matmul (matrix_power A k) A). length r = n \<and> prob_vec r" .
  moreover have "length (matmul (matrix_power A k) A) = n"
    using Suc by (simp add: row_stochastic_def matmul_def)
  ultimately show ?case
    by (simp add: row_stochastic_def)
qed

subsection \<open>Claims about the Ehrenfest notebook\<close>

text \<open>
  C9. For every number of balls \<open>nb \<ge> 1\<close> the loop builds an
  \<open>(nb+1) \<times> (nb+1)\<close> matrix without raising. Row \<open>i\<close> holds \<open>i/nb\<close> at column
  \<open>i-1\<close>, \<open>(nb-i)/nb\<close> at column \<open>i+1\<close> and zero elsewhere, so every entry is
  nonnegative and every row sums to exactly one; and the product of any probability row
  vector with the matrix is again a probability vector.
\<close>

theorem M_row_stochastic:
  assumes "1 \<le> nb" and "length v = nb + 1" and "prob_vec v"
  shows "\<exists>A. M_matrix nb = Inr A \<and> length A = nb + 1
    \<and> (\<forall>i \<le> nb. length (A ! i) = nb + 1 \<and> sum_list (A ! i) = 1
          \<and> (\<forall>j \<le> nb. 0 \<le> A ! i ! j
                \<and> A ! i ! j = (if j + 1 = i then real i / real nb
                                else if j = i + 1 then real (nb - i) / real nb else 0)))
    \<and> (\<exists>w. matmul [v] A = [w] \<and> length w = nb + 1 \<and> prob_vec w)"
proof -
  from assms(1) have pos: "0 < nb" by simp
  have rows: "length (M_loop nb ! i) = nb + 1 \<and> sum_list (M_loop nb ! i) = 1
      \<and> (\<forall>j \<le> nb. 0 \<le> M_loop nb ! i ! j
            \<and> M_loop nb ! i ! j = (if j + 1 = i then real i / real nb
                                else if j = i + 1 then real (nb - i) / real nb else 0))"
    if "i \<le> nb" for i
    using M_loop_dims(2) [OF pos that] M_loop_row_sum [OF pos that] M_loop_nth [OF pos that]
    by (simp add: ehrenfest_entry_def)
  have "matmul [v] (M_loop nb) = [map (\<lambda>j. dot v (col (M_loop nb) j)) [0..<ncols (M_loop nb)]]"
    by (simp add: matmul_def)
  with vecmat_prob [OF M_loop_stochastic [OF pos] assms(2,3)]
  have "\<exists>w. matmul [v] (M_loop nb) = [w] \<and> length w = nb + 1 \<and> prob_vec w"
    by blast
  with rows M_loop_dims(1) [OF pos] pos show ?thesis
    by (simp add: M_matrix_def)
qed

theorem M_row_stochastic_witness:
  "(1::nat) \<le> 2 \<and> length [1/2, 0, 1/2 :: real] = 2 + 1 \<and> prob_vec [1/2, 0, 1/2]
    \<and> (\<exists>A. M_matrix 2 = Inr A \<and> length A = 2 + 1
    \<and> (\<forall>i \<le> 2. length (A ! i) = 2 + 1 \<and> sum_list (A ! i) = 1
          \<and> (\<forall>j \<le> 2. 0 \<le> A ! i ! j
                \<and> A ! i ! j = (if j + 1 = i then real i / real 2
                                else if j = i + 1 then real (2 - i) / real 2 else 0)))
    \<and> (\<exists>w. matmul [[1/2, 0, 1/2]] A = [w] \<and> length w = 2 + 1 \<and> prob_vec w))"
proof -
  have h: "(1::nat) \<le> 2" "length [1/2, 0, 1/2 :: real] = 2 + 1" "prob_vec [1/2, 0, 1/2]"
    by (simp_all add: prob_vec_def)
  from M_row_stochastic [OF h] h show ?thesis by blast
qed

text \<open>
  C3 as stated: \<open>PAfter\<close> is the initial row vector \<open>V1\<close> times the \<open>nturns\<close>-th
  power of \<open>M\<close>, and \<open>P9\<close> is the component of \<open>PAfter\<close> that \<open>V2\<close> selects. The
  notebook cell does neither: every row of \<open>V1 M\<^sup>n\<close> sums to one, while the row of
  \<open>PAfter\<close> sums to eleven, and \<open>P9\<close> is zero where \<open>PAfter\<close> times \<open>V2\<close> is one.
\<close>

theorem PAfter_counterexample:
  "PAfter \<noteq> matmul V1 (matrix_power M nturns) \<and> P9 \<noteq> matvec PAfter V2"
proof
  have rs: "row_stochastic 11 M"
    using M_loop_stochastic [of 10] by (simp add: M_def NB_def)
  have V1_eq: "V1 = [[0, 0, 0, 1, 0, 0, 0, 0, 0, 0, 0]]"
    by code_simp
  have v: "\<forall>r \<in> set V1. length r = 11 \<and> prob_vec r"
    unfolding V1_eq by (simp add: prob_vec_def)
  have rows: "\<forall>r \<in> set (matmul V1 (matrix_power M nturns)). length r = 11 \<and> prob_vec r"
    by (rule matmul_rows_prob [OF matrix_power_stochastic [OF rs] v])
  have P: "PAfter = [replicate 11 1]"
    by code_simp
  have not_prob: "\<not> prob_vec (replicate 11 1)"
    by (simp add: prob_vec_def sum_list_replicate)
  show "PAfter \<noteq> matmul V1 (matrix_power M nturns)"
  proof
    assume "PAfter = matmul V1 (matrix_power M nturns)"
    with rows P have "\<forall>r \<in> set [replicate 11 (1::real)]. prob_vec r"
      by metis
    then have "prob_vec (replicate 11 1)"
      by (metis list.set_intros(1))
    with not_prob show False ..
  qed
next
  have P9_eq: "P9 = [0]" by code_simp
  have sel: "matvec PAfter V2 = [1]" by code_simp
  show "P9 \<noteq> matvec PAfter V2" unfolding P9_eq sel by simp
qed

text \<open>
  C3 as the notebook computes it: \<open>PAfter\<close> is \<open>V1\<close> times the first power of the
  all-ones matrix, that is the row of \<open>NB + 1\<close> ones, and \<open>P9\<close> is \<open>PAfter\<close> times
  the zero vector, that is zero. Neither \<open>M\<close>, \<open>nturns\<close> nor \<open>V2\<close> enters.
\<close>

theorem PAfter_placeholder:
  "PAfter = matmul V1 (ones (NB + 1) (NB + 1)) \<and> PAfter = [replicate (NB + 1) 1] \<and> P9 = [0]"
  by code_simp

subsection \<open>Separation of two samples\<close>

lemma np_std_nonneg:
  assumes "np_std ddof xs = Some s"
  shows "0 \<le> s"
proof -
  have "0 \<le> sum_list (map (\<lambda>x. (x - sum_list xs / real (length xs))\<^sup>2) xs)
      / real (length xs - ddof)"
    by (intro divide_nonneg_nonneg sum_list_nonneg) auto
  with assms show ?thesis
    by (auto simp add: np_std_def split: if_splits)
qed

lemma np_std_Some: "ddof < length xs \<Longrightarrow> \<exists>s. np_std ddof xs = Some s"
  by (simp add: np_std_def)

lemma np_mean_Some: "xs \<noteq> [] \<Longrightarrow> \<exists>m. np_mean xs = Some m"
  by (simp add: np_mean_def)

text \<open>
  C10. For samples with at least two elements each, of which at least one has a
  positive sample standard deviation, \<open>calc_separation\<close> returns a finite number, that
  number is nonnegative, and exchanging the two samples does not change it.
\<close>

theorem calc_separation_symmetric_nonneg:
  assumes "2 \<le> length x" and "2 \<le> length y"
    and "(\<exists>s. np_std 1 x = Some s \<and> 0 < s) \<or> (\<exists>s. np_std 1 y = Some s \<and> 0 < s)"
  shows "calc_separation x y = calc_separation y x
    \<and> (\<exists>d. calc_separation x y = Some d \<and> 0 \<le> d)"
proof -
  from assms(1,2) have ne: "x \<noteq> []" "y \<noteq> []" by auto
  from np_mean_Some [OF ne(1)] obtain mx where mx: "np_mean x = Some mx" ..
  from np_mean_Some [OF ne(2)] obtain my where my: "np_mean y = Some my" ..
  from assms(1) np_std_Some [of 1 x] obtain sx where sx: "np_std 1 x = Some sx" by auto
  from assms(2) np_std_Some [of 1 y] obtain sy where sy: "np_std 1 y = Some sy" by auto
  have nn: "0 \<le> sx" "0 \<le> sy"
    using np_std_nonneg [OF sx] np_std_nonneg [OF sy] by simp_all
  from assms(3) sx sy have one: "0 < sx \<or> 0 < sy" by auto
  then have nz: "\<not> (sx = 0 \<and> sy = 0)" by auto
  from one nn have "0 < sx\<^sup>2 + sy\<^sup>2"
    by (auto intro: add_pos_nonneg add_nonneg_pos)
  then have pos: "0 < sqrt (sx\<^sup>2 + sy\<^sup>2)" by simp
  have xy: "calc_separation x y = Some (\<bar>mx - my\<bar> / sqrt (sx\<^sup>2 + sy\<^sup>2))"
    unfolding calc_separation_def mx my sx sy np_div_def using nz by auto
  have yx: "calc_separation y x = Some (\<bar>my - mx\<bar> / sqrt (sy\<^sup>2 + sx\<^sup>2))"
    unfolding calc_separation_def mx my sx sy np_div_def using nz by auto
  have "\<bar>mx - my\<bar> / sqrt (sx\<^sup>2 + sy\<^sup>2) = \<bar>my - mx\<bar> / sqrt (sy\<^sup>2 + sx\<^sup>2)"
    by (simp add: abs_minus_commute add.commute)
  moreover have "0 \<le> \<bar>mx - my\<bar> / sqrt (sx\<^sup>2 + sy\<^sup>2)"
    using pos by simp
  ultimately show ?thesis
    using xy yx by simp
qed

theorem calc_separation_symmetric_nonneg_witness:
  "(2::nat) \<le> length [0, 2 :: real] \<and> 2 \<le> length [1, 1 :: real]
    \<and> np_std 1 [0, 2] = Some (sqrt 2) \<and> 0 < sqrt 2
    \<and> calc_separation [0, 2] [1, 1] = calc_separation [1, 1] [0, 2]
    \<and> (\<exists>d. calc_separation [0, 2] [1, 1] = Some d \<and> 0 \<le> d)"
proof -
  have s: "np_std 1 [0, 2] = Some (sqrt 2)"
    by (simp add: np_std_def)
  have h: "(\<exists>s. np_std 1 [0, 2] = Some s \<and> 0 < s) \<or> (\<exists>s. np_std 1 [1, 1] = Some s \<and> 0 < s)"
    using s by simp
  have l: "2 \<le> length [0, 2 :: real]" "2 \<le> length [1, 1 :: real]" by simp_all
  have p: "0 < sqrt (2::real)" by simp
  from calc_separation_symmetric_nonneg [OF l h] s p l show ?thesis by blast
qed

subsection \<open>Resolution with outliers masked\<close>

lemma window_select_filter: "window_select rd = map the (filter in_window rd)"
  by (induction rd) (auto simp add: window_select_def List.map_filter_simps in_window_def
      split: option.splits)

lemma in_window_iff: "in_window q \<longleftrightarrow> (\<exists>v. q = Some v \<and> - 2 < v \<and> v < 2)"
  by (cases q) (simp_all add: in_window_def)

lemma resolution_drop_outlier:
  assumes "\<not> in_window r"
  shows "resolution (xs @ r # ys) = resolution (xs @ ys)"
  using assms by (simp add: resolution_def window_select_filter)

lemma resolution_replace_outlier:
  assumes "i < length rd" "\<not> in_window (rd ! i)" "\<not> in_window r'"
  shows "resolution (rd[i := r']) = resolution rd"
proof -
  have "resolution (rd[i := r']) = resolution (take i rd @ r' # drop (Suc i) rd)"
    using assms(1) by (simp add: upd_conv_take_nth_drop)
  also have "\<dots> = resolution (take i rd @ drop (Suc i) rd)"
    by (rule resolution_drop_outlier [OF assms(3)])
  also have "\<dots> = resolution (take i rd @ rd ! i # drop (Suc i) rd)"
    by (rule resolution_drop_outlier [OF assms(2), symmetric])
  also have "\<dots> = resolution rd"
    using assms(1) by (simp add: id_take_nth_drop [symmetric])
  finally show ?thesis .
qed

lemma select_map:
  assumes "\<And>z. in_window (G z) \<longleftrightarrow> C z" and "\<And>z. C z \<Longrightarrow> G z = Some (F z)"
  shows "window_select (map G zs) = map F (filter C zs)"
  unfolding window_select_filter
  by (induction zs) (simp_all add: assms)

lemma RD_zip: "RD dmeas dknown = map (\<lambda>(m, k). np_div (m - k) k) (zip dmeas dknown)"
  by (simp add: RD_def)

lemma Res_Raw_explicit:
  "Res_Raw dmeas dknown
    = np_std 0 (map (\<lambda>(m, k). (m - k) / k)
        (filter (\<lambda>(m, k). k \<noteq> 0 \<and> - 2 < (m - k) / k \<and> (m - k) / k < 2) (zip dmeas dknown)))"
proof -
  have "window_select (map (\<lambda>(m, k). np_div (m - k) k) zs)
      = map (\<lambda>(m, k). (m - k) / k)
          (filter (\<lambda>(m, k). k \<noteq> 0 \<and> - 2 < (m - k) / k \<and> (m - k) / k < 2) zs)"
    for zs :: "(real \<times> real) list"
    by (rule select_map) (auto simp add: np_div_def in_window_def split: if_splits)
  then show ?thesis
    by (simp only: Res_Raw_def resolution_def RD_zip)
qed

lemma Res_Raw_drop_outlier:
  assumes "length ms = length ks" and "k = 0 \<or> (m - k) / k \<le> - 2 \<or> 2 \<le> (m - k) / k"
  shows "Res_Raw (ms @ m # ms') (ks @ k # ks') = Res_Raw (ms @ ms') (ks @ ks')"
  using assms by (auto simp add: Res_Raw_explicit)

lemma RD_calib_zip:
  "RD_calib_lsig (map2 (\<lambda>d l. np_div d (1 + f l p)) dmeas lsig) dknown
    = map (\<lambda>((d, l), k). do { c \<leftarrow> np_div d (1 + f l p); np_div (c - k) k })
        (zip (zip dmeas lsig) dknown)"
  by (simp add: RD_calib_lsig_def zip_map1 split_def)

lemma dmeas_calib_cases:
  "dmeas_calib_lsig None mfit_lsig dmeas lsig = Inl (NameError ''lsig_calibfit'')"
  "dmeas_calib_lsig (Some f) None dmeas lsig = Inl (NameError ''mfit_lsig'')"
  "dmeas_calib_lsig (Some f) (Some p) dmeas lsig
     = Inr (map2 (\<lambda>d l. np_div d (1 + f l p)) dmeas lsig)"
  by (simp_all add: dmeas_calib_lsig_def)

lemma Res_calib_explicit:
  "Res_calib_lsig (Some f) (Some p) dmeas lsig dknown
    = Inr (np_std 0 (map (\<lambda>((d, l), k). (d / (1 + f l p) - k) / k)
        (filter (\<lambda>((d, l), k). 1 + f l p \<noteq> 0 \<and> k \<noteq> 0
            \<and> - 2 < (d / (1 + f l p) - k) / k \<and> (d / (1 + f l p) - k) / k < 2)
          (zip (zip dmeas lsig) dknown))))"
proof -
  have "window_select
        (map (\<lambda>((d, l), k). do { c \<leftarrow> np_div d (1 + f l p); np_div (c - k) k }) zs)
      = map (\<lambda>((d, l), k). (d / (1 + f l p) - k) / k)
          (filter (\<lambda>((d, l), k). 1 + f l p \<noteq> 0 \<and> k \<noteq> 0
              \<and> - 2 < (d / (1 + f l p) - k) / k \<and> (d / (1 + f l p) - k) / k < 2) zs)"
    for zs :: "((real \<times> real) \<times> real) list"
    by (rule select_map) (auto simp add: np_div_def in_window_def split: if_splits)
  then show ?thesis
    by (simp only: Res_calib_lsig_def dmeas_calib_cases sum.case resolution_def RD_calib_zip)
qed


text \<open>
  C8 as stated: the calibrated resolution \<open>Res_calib_lsig\<close> is the standard deviation
  of the masked relative differences. In the notebook as it stands neither
  \<open>lsig_calibfit\<close> nor \<open>mfit_lsig\<close> is bound, and the cell raises \<open>NameError\<close> before
  \<open>Res_calib_lsig\<close> is assigned, whatever the data.
\<close>

theorem Res_calib_lsig_counterexample:
  "Res_calib_lsig None None [3, 9, 1] [0, 0, 0] [1, 3, 1] = Inl (NameError ''lsig_calibfit'')"
  by (simp add: Res_calib_lsig_def dmeas_calib_cases)

text \<open>
  C8 as the notebook computes it. \<open>Res_Raw\<close> is the population standard deviation of
  the relative differences \<open>(dmeas - dknown) / dknown\<close> that lie strictly between \<open>-2\<close>
  and \<open>2\<close>, taken in order; a row of the data whose relative difference is outside that
  window (the bounds themselves and a known distance of zero included) has no influence:
  removing it leaves \<open>Res_Raw\<close> unchanged. The calibrated cell raises \<open>NameError\<close>
  until the reader has bound \<open>lsig_calibfit\<close> and \<open>mfit_lsig\<close>; once both are bound,
  \<open>Res_calib_lsig\<close> is the same masked standard deviation of the relative differences
  of the calibrated distances \<open>dmeas / (1 + lsig_calibfit(lsig, \<dots>))\<close>, and again an
  entry outside the window has no influence on it.
\<close>

theorem resolutions_masked_std:
  assumes "length ms = length ks"
    and "k = 0 \<or> (m - k) / k \<le> - 2 \<or> 2 \<le> (m - k) / k"
    and "\<not> in_window r"
  shows "Res_Raw dmeas dknown
      = np_std 0 (map (\<lambda>(m, k). (m - k) / k)
          (filter (\<lambda>(m, k). k \<noteq> 0 \<and> - 2 < (m - k) / k \<and> (m - k) / k < 2) (zip dmeas dknown)))
    \<and> Res_Raw (ms @ m # ms') (ks @ k # ks') = Res_Raw (ms @ ms') (ks @ ks')
    \<and> Res_calib_lsig None mfit_lsig dmeas lsig dknown = Inl (NameError ''lsig_calibfit'')
    \<and> Res_calib_lsig (Some f) None dmeas lsig dknown = Inl (NameError ''mfit_lsig'')
    \<and> Res_calib_lsig (Some f) (Some p) dmeas lsig dknown
      = Inr (np_std 0 (map (\<lambda>((d, l), k). (d / (1 + f l p) - k) / k)
          (filter (\<lambda>((d, l), k). 1 + f l p \<noteq> 0 \<and> k \<noteq> 0
              \<and> - 2 < (d / (1 + f l p) - k) / k \<and> (d / (1 + f l p) - k) / k < 2)
            (zip (zip dmeas lsig) dknown))))
    \<and> Res_calib_lsig (Some f) (Some p) dmeas lsig dknown
      = Inr (resolution
          (RD_calib_lsig (map2 (\<lambda>d l. np_div d (1 + f l p)) dmeas lsig) dknown))
    \<and> (in_window q \<longleftrightarrow> (\<exists>v. q = Some v \<and> - 2 < v \<and> v < 2))
    \<and> resolution (xs @ r # ys) = resolution (xs @ ys)"
proof (intro conjI)
  show "Res_Raw dmeas dknown
      = np_std 0 (map (\<lambda>(m, k). (m - k) / k)
          (filter (\<lambda>(m, k). k \<noteq> 0 \<and> - 2 < (m - k) / k \<and> (m - k) / k < 2) (zip dmeas dknown)))"
    by (rule Res_Raw_explicit)
  show "Res_Raw (ms @ m # ms') (ks @ k # ks') = Res_Raw (ms @ ms') (ks @ ks')"
    by (rule Res_Raw_drop_outlier [OF assms(1,2)])
  show "Res_calib_lsig None mfit_lsig dmeas lsig dknown = Inl (NameError ''lsig_calibfit'')"
    by (simp add: Res_calib_lsig_def dmeas_calib_cases)
  show "Res_calib_lsig (Some f) None dmeas lsig dknown = Inl (NameError ''mfit_lsig'')"
    by (simp add: Res_calib_lsig_def dmeas_calib_cases)
  show "Res_calib_lsig (Some f) (Some p) dmeas lsig dknown
      = Inr (np_std 0 (map (\<lambda>((d, l), k). (d / (1 + f l p) - k) / k)
          (filter (\<lambda>((d, l), k). 1 + f l p \<noteq> 0 \<and> k \<noteq> 0
              \<and> - 2 < (d / (1 + f l p) - k) / k \<and> (d / (1 + f l p) - k) / k < 2)
            (zip (zip dmeas lsig) dknown))))"
    by (rule Res_calib_explicit)
  show "Res_calib_lsig (Some f) (Some p) dmeas lsig dknown
      = Inr (resolution
          (RD_calib_lsig (map2 (\<lambda>d l. np_div d (1 + f l p)) dmeas lsig) dknown))"
    by (simp add: Res_calib_lsig_def dmeas_calib_cases)
  show "in_window q \<longleftrightarrow> (\<exists>v. q = Some v \<and> - 2 < v \<and> v < 2)"
    by (rule in_window_iff)
  show "resolution (xs @ r # ys) = resolution (xs @ ys)"
    by (rule resolution_drop_outlier [OF assms(3)])
qed

theorem resolutions_masked_std_witness:
  "length [1 :: real] = length [1 :: real]
    \<and> ((1 :: real) = 0 \<or> (5 - 1) / 1 \<le> (- 2 :: real) \<or> (2 :: real) \<le> (5 - 1) / 1)
    \<and> \<not> in_window (Some 2)
    \<and> Res_Raw ([1] @ 5 # [4]) ([1] @ 1 # [2]) = Res_Raw ([1] @ [4]) ([1] @ [2])
    \<and> Res_Raw [1, 4] [1, 2] = Some (1 / 2)
    \<and> resolution ([Some 0] @ Some 2 # [Some 1]) = resolution ([Some 0] @ [Some 1])"
proof -
  have h1: "length [1 :: real] = length [1 :: real]" by simp
  have h2: "(1 :: real) = 0 \<or> (5 - 1) / 1 \<le> (- 2 :: real) \<or> (2 :: real) \<le> (5 - 1) / 1"
    by simp
  have h3: "\<not> in_window (Some 2)"
    by (simp add: in_window_def)
  have v: "Res_Raw [1, 4] [1, 2] = Some (1 / 2)"
    by (simp add: Res_Raw_explicit np_std_def power2_eq_square real_sqrt_divide)
  from resolutions_masked_std [OF h1 h2 h3, where ms' = "[4]" and ks' = "[2]"
      and xs = "[Some 0]" and ys = "[Some 1]"] h1 h2 h3 v
  show ?thesis by blast
qed

subsection \<open>Analytical straight-line fit\<close>

lemma normal_eq_algebra:
  fixes n Sx Sxx Sy Sxy :: real
  assumes "Sxx * n - Sx\<^sup>2 \<noteq> 0"
  shows "n * ((Sy * Sxx - Sxy * Sx) / (Sxx * n - Sx\<^sup>2))
       + ((Sxy * n - Sy * Sx) / (Sxx * n - Sx\<^sup>2)) * Sx = Sy"
    and "((Sy * Sxx - Sxy * Sx) / (Sxx * n - Sx\<^sup>2)) * Sx
       + ((Sxy * n - Sy * Sx) / (Sxx * n - Sx\<^sup>2)) * Sxx = Sxy"
proof -
  let ?D = "Sxx * n - Sx\<^sup>2"
  have "n * ((Sy * Sxx - Sxy * Sx) / ?D) + ((Sxy * n - Sy * Sx) / ?D) * Sx
      = (n * (Sy * Sxx - Sxy * Sx) + (Sxy * n - Sy * Sx) * Sx) / ?D"
    by (simp add: add_divide_distrib)
  also have "n * (Sy * Sxx - Sxy * Sx) + (Sxy * n - Sy * Sx) * Sx = Sy * ?D"
    by (simp add: algebra_simps power2_eq_square)
  finally show "n * ((Sy * Sxx - Sxy * Sx) / ?D) + ((Sxy * n - Sy * Sx) / ?D) * Sx = Sy"
    using assms by simp
  have "((Sy * Sxx - Sxy * Sx) / ?D) * Sx + ((Sxy * n - Sy * Sx) / ?D) * Sxx
      = ((Sy * Sxx - Sxy * Sx) * Sx + (Sxy * n - Sy * Sx) * Sxx) / ?D"
    by (simp add: add_divide_distrib)
  also have "(Sy * Sxx - Sxy * Sx) * Sx + (Sxy * n - Sy * Sx) * Sxx = Sxy * ?D"
    by (simp add: algebra_simps power2_eq_square)
  finally show "((Sy * Sxx - Sxy * Sx) / ?D) * Sx + ((Sxy * n - Sy * Sx) / ?D) * Sxx = Sxy"
    using assms by simp
qed

lemma fold_add_sum: "fold (\<lambda>i c. c + f i) ks (c0::real) = c0 + sum_list (map f ks)"
  by (induction ks arbitrary: c0) simp_all

lemma sum_list_upt: "sum_list (map f [0..<n]) = (\<Sum>i < n. f i)"
  by (simp add: interv_sum_list_conv_sum_set_nat atLeast0LessThan)

lemma sum_list_map2: "length ys = length xs \<Longrightarrow> sum_list (map2 f xs ys) = (\<Sum>k < length xs. f (xs ! k) (ys ! k))"
  by (simp add: sum_list_lessThan)

lemma least_squares_min:
  fixes x y :: "nat \<Rightarrow> real"
  assumes r0: "(\<Sum>i < n. y i - a0 - a1 * x i) = 0"
    and r1: "(\<Sum>i < n. (y i - a0 - a1 * x i) * x i) = 0"
  shows "(\<Sum>i < n. (y i - a0 - a1 * x i)\<^sup>2) \<le> (\<Sum>i < n. (y i - a - b * x i)\<^sup>2)"
proof -
  let ?r = "\<lambda>i. y i - a0 - a1 * x i"
  let ?e = "\<lambda>i. (a - a0) + (b - a1) * x i"
  have "(\<Sum>i < n. (y i - a - b * x i)\<^sup>2) = (\<Sum>i < n. (?r i)\<^sup>2 - 2 * (?r i * ?e i) + (?e i)\<^sup>2)"
    by (rule sum.cong) (simp_all add: power2_eq_square algebra_simps)
  also have "\<dots> = (\<Sum>i < n. (?r i)\<^sup>2) - 2 * (\<Sum>i < n. ?r i * ?e i) + (\<Sum>i < n. (?e i)\<^sup>2)"
    by (simp add: sum.distrib sum_subtractf sum_distrib_left)
  also have "(\<Sum>i < n. ?r i * ?e i) = (a - a0) * (\<Sum>i < n. ?r i) + (b - a1) * (\<Sum>i < n. ?r i * x i)"
    by (simp add: sum_distrib_left sum.distrib [symmetric] algebra_simps)
  also have "\<dots> = 0" by (simp add: r0 r1)
  finally have "(\<Sum>i < n. (y i - a - b * x i)\<^sup>2) = (\<Sum>i < n. (?r i)\<^sup>2) + (\<Sum>i < n. (?e i)\<^sup>2)"
    by simp
  moreover have "0 \<le> (\<Sum>i < n. (?e i)\<^sup>2)" by (simp add: sum_nonneg)
  ultimately show ?thesis by simp
qed


lemma chi2_line_min:
  assumes len: "length y = length x"
    and n0: "sum_list y = real (length x) * a0 + a1 * sum_list x"
    and n1: "sum_list (map2 (*) x y) = a0 * sum_list x + a1 * sum_list (map (\<lambda>v. v\<^sup>2) x)"
  shows "chi2_line sigmay x y a0 a1 \<le> chi2_line sigmay x y a b"
proof -
  let ?n = "length x"
  have Sy: "sum_list y = (\<Sum>i < ?n. y ! i)"
    using len by (simp add: sum_list_lessThan)
  have Sx: "sum_list x = (\<Sum>i < ?n. x ! i)"
    by (simp add: sum_list_lessThan)
  have Sxy: "sum_list (map2 (*) x y) = (\<Sum>i < ?n. x ! i * y ! i)"
    using len by (simp add: sum_list_map2)
  have Sxx: "sum_list (map (\<lambda>v. v\<^sup>2) x) = (\<Sum>i < ?n. x ! i * x ! i)"
    by (simp add: sum_list_lessThan power2_eq_square)
  have "(\<Sum>i < ?n. y ! i - a0 - a1 * x ! i)
      = (\<Sum>i < ?n. y ! i) - real ?n * a0 - a1 * (\<Sum>i < ?n. x ! i)"
    by (simp add: sum_subtractf sum_distrib_left)
  then have r0: "(\<Sum>i < ?n. y ! i - a0 - a1 * x ! i) = 0"
    using n0 by (simp add: Sy Sx)
  have "(\<Sum>i < ?n. (y ! i - a0 - a1 * x ! i) * x ! i)
      = (\<Sum>i < ?n. x ! i * y ! i - a0 * x ! i - a1 * (x ! i * x ! i))"
    by (rule sum.cong) (simp_all add: algebra_simps)
  also have "\<dots> = (\<Sum>i < ?n. x ! i * y ! i) - a0 * (\<Sum>i < ?n. x ! i)
      - a1 * (\<Sum>i < ?n. x ! i * x ! i)"
    by (simp add: sum_subtractf sum_distrib_left)
  finally have r1: "(\<Sum>i < ?n. (y ! i - a0 - a1 * x ! i) * x ! i) = 0"
    using n1 by (simp add: Sxy Sx Sxx)
  have le: "(\<Sum>i < ?n. (y ! i - a0 - a1 * x ! i)\<^sup>2) \<le> (\<Sum>i < ?n. (y ! i - a - b * x ! i)\<^sup>2)"
    by (rule least_squares_min [OF r0 r1])
  have scale: "chi2_line sigmay x y c d = (\<Sum>i < ?n. (y ! i - c - d * x ! i)\<^sup>2) / sigmay\<^sup>2" for c d
    by (simp add: chi2_line_def power_divide sum_divide_distrib)
  show ?thesis
    unfolding scale using le by (rule divide_right_mono) simp
qed

lemma wrap64_id: "- (2 ^ 63) \<le> z \<Longrightarrow> z < 2 ^ 63 \<Longrightarrow> wrap64 z = z"
  by (simp add: wrap64_def)

lemma wrap64_cong: "a mod 2 ^ 64 = b mod 2 ^ 64 \<Longrightarrow> wrap64 a = wrap64 b"
proof -
  assume "a mod 2 ^ 64 = b mod 2 ^ 64"
  then have "(a + 2 ^ 63) mod 2 ^ 64 = (b + 2 ^ 63) mod 2 ^ 64"
    by (metis mod_add_left_eq)
  then show ?thesis by (simp add: wrap64_def)
qed

lemma wrap64_mod: "wrap64 z mod 2 ^ 64 = z mod 2 ^ 64"
proof -
  have "wrap64 z mod 2 ^ 64 = ((z + 2 ^ 63) mod 2 ^ 64 - 2 ^ 63) mod 2 ^ 64"
    by (simp add: wrap64_def)
  also have "\<dots> = (z + 2 ^ 63 - 2 ^ 63) mod 2 ^ 64"
    by (rule mod_diff_left_eq)
  finally show ?thesis by simp
qed

lemma wrap64_Delta: "wrap64 (wrap64 (a * b) - wrap64 (c * c)) = wrap64 (a * b - c * c)"
proof (rule wrap64_cong)
  have "(wrap64 (a * b) - wrap64 (c * c)) mod 2 ^ 64
      = (wrap64 (a * b) mod 2 ^ 64 - wrap64 (c * c) mod 2 ^ 64) mod 2 ^ 64"
    by (simp add: mod_diff_eq)
  also have "\<dots> = ((a * b) mod 2 ^ 64 - (c * c) mod 2 ^ 64) mod 2 ^ 64"
    by (simp only: wrap64_mod)
  also have "\<dots> = (a * b - c * c) mod 2 ^ 64"
    by (simp add: mod_diff_eq)
  finally show "(wrap64 (a * b) - wrap64 (c * c)) mod 2 ^ 64 = (a * b - c * c) mod 2 ^ 64" .
qed

lemma x_array_plain:
  assumes "Npoints \<le> 2 ^ 31"
  shows "x_array Npoints = map (\<lambda>k. int k + 1) [0..<Npoints]"
  unfolding x_array_def
proof (rule map_cong [OF refl])
  fix k assume "k \<in> set [0..<Npoints]"
  with assms have "int k + 1 \<le> 2 ^ 31" by simp
  then show "wrap64 (int k + 1) = int k + 1"
    by (intro wrap64_id) simp_all
qed

lemma squares_plain:
  assumes "Npoints \<le> 2 ^ 31"
  shows "map (\<lambda>v. wrap64 (v * v)) (x_array Npoints)
    = map (\<lambda>k. (int k + 1) * (int k + 1)) [0..<Npoints]"
  unfolding x_array_plain [OF assms] map_map comp_def
proof (rule map_cong [OF refl])
  fix k assume "k \<in> set [0..<Npoints]"
  with assms have le: "int k + 1 \<le> 2 ^ 31" by simp
  have "(int k + 1) * (int k + 1) \<le> 2 ^ 31 * 2 ^ 31"
    by (intro mult_mono le) simp_all
  then have up: "(int k + 1) * (int k + 1) < 2 ^ 63"
    by simp
  have lo: "- (2 ^ 63) \<le> (int k + 1) * (int k + 1)"
    by (rule order_trans [of _ 0]) simp_all
  from lo up show "wrap64 ((int k + 1) * (int k + 1)) = (int k + 1) * (int k + 1)"
    by (rule wrap64_id)
qed

lemma sum_x_closed: "2 * sum_list (map (\<lambda>k. int k + 1) [0..<n]) = int n * (int n + 1)"
  by (induction n) (simp_all add: algebra_simps)

lemma sum_xx_closed:
  "6 * sum_list (map (\<lambda>k. (int k + 1) * (int k + 1)) [0..<n]) = int n * (int n + 1) * (2 * int n + 1)"
  by (induction n) (simp_all add: algebra_simps)


lemma map2_replicate:
  "length xs = n \<Longrightarrow> map2 f xs (replicate n c) = map (\<lambda>v. f v c) xs"
  by (induction xs arbitrary: n) auto

lemma of_int_sum_list_real: "sum_list (map real_of_int xs) = real_of_int (sum_list xs)"
  by (induction xs) simp_all

lemma sums_110000:
  "sum_list (x_array 110000) = 6050055000"
  "sum_list (map (\<lambda>v. wrap64 (v * v)) (x_array 110000)) = 443672716685000"
proof -
  have le: "(110000::nat) \<le> 2 ^ 31" by simp
  show "sum_list (x_array 110000) = 6050055000"
    using sum_x_closed [of 110000] by (simp add: x_array_plain [OF le])
  show "sum_list (map (\<lambda>v. wrap64 (v * v)) (x_array 110000)) = 443672716685000"
    using sum_xx_closed [of 110000] by (simp add: squares_plain [OF le])
qed

lemma length_x_array [simp]: "length (x_array n) = n"
  by (simp add: x_array_def)

lemma fit_ones:
  "Delta (analytical_fit sf sigmay n (replicate n 1))
     = wrap64 (wrap64 (wrap64 (sum_list (map (\<lambda>v. wrap64 (v * v)) (x_array n))) * int n)
         - wrap64 (wrap64 (sum_list (x_array n)) * wrap64 (sum_list (x_array n))))"
  "alpha0_calc (analytical_fit sf sigmay n (replicate n 1))
     = (real n * real_of_int (wrap64 (sum_list (map (\<lambda>v. wrap64 (v * v)) (x_array n))))
        - real_of_int (sum_list (x_array n)) * real_of_int (wrap64 (sum_list (x_array n))))
       / real_of_int (Delta (analytical_fit sf sigmay n (replicate n 1)))"
  "alpha1_calc (analytical_fit sf sigmay n (replicate n 1))
     = (real_of_int (sum_list (x_array n)) * real n
        - real n * real_of_int (wrap64 (sum_list (x_array n))))
       / real_of_int (Delta (analytical_fit sf sigmay n (replicate n 1)))"
  by (simp_all add: analytical_fit_def Let_def map2_replicate of_int_sum_list_real
      sum_list_replicate)

lemma fit_110000:
  "Delta (analytical_fit sf 1 110000 (replicate 110000 1)) = - 6245910741384551616"
  "alpha0_calc (analytical_fit sf 1 110000 (replicate 110000 1))
     = - (190638020817578125 / 97592355334133619)"
  "alpha1_calc (analytical_fit sf 1 110000 (replicate 110000 1)) = 0"
proof -
  show D: "Delta (analytical_fit sf 1 110000 (replicate 110000 1)) = - 6245910741384551616"
    unfolding fit_ones sums_110000 by (simp add: wrap64_def)
  show "alpha0_calc (analytical_fit sf 1 110000 (replicate 110000 1))
     = - (190638020817578125 / 97592355334133619)"
    unfolding fit_ones(2) D sums_110000 by (simp add: wrap64_def)
  show "alpha1_calc (analytical_fit sf 1 110000 (replicate 110000 1)) = 0"
    unfolding fit_ones(3) D sums_110000 by (simp add: wrap64_def)
qed


lemma fit_Delta:
  "Delta (analytical_fit sf sigmay n y)
     = wrap64 (wrap64 (wrap64 (sum_list (map (\<lambda>v. wrap64 (v * v)) (x_array n))) * int n)
         - wrap64 (wrap64 (sum_list (x_array n)) * wrap64 (sum_list (x_array n))))"
  by (simp add: analytical_fit_def Let_def)

lemma Delta_110000:
  "Delta (analytical_fit sf sigmay 110000 y) = - 6245910741384551616"
  unfolding fit_Delta sums_110000 by (simp add: wrap64_def)

lemma int_quotient_bounds:
  fixes s p :: int
  shows "2 * s = p \<Longrightarrow> 0 \<le> p \<Longrightarrow> p \<le> 100000000000000000000 \<Longrightarrow> 0 \<le> s"
    and "12 * s = p \<Longrightarrow> 0 \<le> p \<Longrightarrow> p \<le> 100000000000000000000 \<Longrightarrow> 0 \<le> s \<and> s < 2 ^ 63"
    and "6 * s = p \<Longrightarrow> 0 \<le> p \<Longrightarrow> p \<le> 30000000000000000 \<Longrightarrow> 0 \<le> s \<and> s < 2 ^ 63"
    and "2 * s = p \<Longrightarrow> 0 \<le> p \<Longrightarrow> p \<le> 30000000000000000 \<Longrightarrow> 0 \<le> s \<and> s < 2 ^ 63"
  by simp_all

lemma Delta_plain:
  assumes n: "2 \<le> Npoints" "Npoints \<le> 100000"
  shows "Delta (analytical_fit sf sigmay Npoints y)
      = sum_list (map (\<lambda>v. v * v) (x_array Npoints)) * int Npoints - (sum_list (x_array Npoints))\<^sup>2"
    and "0 < Delta (analytical_fit sf sigmay Npoints y)"
    and "wrap64 (sum_list (x_array Npoints)) = sum_list (x_array Npoints)"
    and "wrap64 (sum_list (map (\<lambda>v. wrap64 (v * v)) (x_array Npoints)))
      = sum_list (map (\<lambda>v. v * v) (x_array Npoints))"
proof -
  let ?n = "int Npoints"
  let ?S = "sum_list (map (\<lambda>k. int k + 1) [0..<Npoints])"
  let ?Q = "sum_list (map (\<lambda>k. (int k + 1) * (int k + 1)) [0..<Npoints])"
  from n have le: "Npoints \<le> 2 ^ 31" by simp
  have x: "x_array Npoints = map (\<lambda>k. int k + 1) [0..<Npoints]"
    by (rule x_array_plain [OF le])
  have q: "map (\<lambda>v. wrap64 (v * v)) (x_array Npoints) = map (\<lambda>k. (int k + 1) * (int k + 1)) [0..<Npoints]"
    by (rule squares_plain [OF le])
  have q': "map (\<lambda>v. v * v) (x_array Npoints) = map (\<lambda>k. (int k + 1) * (int k + 1)) [0..<Npoints]"
    by (simp add: x comp_def)
  have n0: "2 \<le> ?n" "?n \<le> 100000" using n by simp_all
  have S2: "2 * ?S = ?n * (?n + 1)" by (rule sum_x_closed)
  have Q6: "6 * ?Q = ?n * (?n + 1) * (2 * ?n + 1)" by (rule sum_xx_closed)
  have n2: "?n * ?n \<le> 100000 * 100000"
    using n0 by (intro mult_mono) simp_all
  have n1: "?n * (?n + 1) \<le> 100000 * 100001"
    using n0 by (intro mult_mono) simp_all
  have "0 \<le> ?n * (?n + 1)" by simp
  from int_quotient_bounds(4) [OF S2 this] n1 have Sb: "0 \<le> ?S" "?S < 2 ^ 63"
    by simp_all
  have "?n * (?n + 1) * (2 * ?n + 1) \<le> (100000 * 100001) * 200001"
    using n1 n0 by (intro mult_mono) simp_all
  moreover have "0 \<le> ?n * (?n + 1) * (2 * ?n + 1)" by simp
  ultimately have Qb: "0 \<le> ?Q" "?Q < 2 ^ 63"
    using int_quotient_bounds(3) [OF Q6] by simp_all
  have D12: "12 * (?Q * ?n - ?S * ?S) = (?n * ?n) * ((?n + 1) * (?n - 1))"
  proof -
    have "12 * (?Q * ?n - ?S * ?S) = 2 * (6 * ?Q) * ?n - 3 * ((2 * ?S) * (2 * ?S))"
      by (simp add: algebra_simps)
    also have "\<dots> = (?n * ?n) * ((?n + 1) * (?n - 1))"
      unfolding S2 Q6 by (simp add: algebra_simps)
    finally show ?thesis .
  qed
  have "(?n + 1) * (?n - 1) \<le> 100001 * 99999"
    using n0 by (intro mult_mono) simp_all
  with n2 have "(?n * ?n) * ((?n + 1) * (?n - 1)) \<le> (100000 * 100000) * (100001 * 99999)"
    using n0 by (intro mult_mono) simp_all
  moreover have pos: "0 < (?n * ?n) * ((?n + 1) * (?n - 1))"
    using n0 by (intro mult_pos_pos) simp_all
  ultimately have Dup: "?Q * ?n - ?S * ?S < 2 ^ 63"
    using int_quotient_bounds(2) [OF D12] by simp
  have Dpos: "0 < ?Q * ?n - ?S * ?S"
  proof (rule ccontr)
    assume "\<not> 0 < ?Q * ?n - ?S * ?S"
    then have "12 * (?Q * ?n - ?S * ?S) \<le> 0" by simp
    with D12 pos show False by simp
  qed
  have wS: "wrap64 ?S = ?S" using Sb by (intro wrap64_id) simp_all
  have wQ: "wrap64 ?Q = ?Q" using Qb by (intro wrap64_id) simp_all
  have D: "Delta (analytical_fit sf sigmay Npoints y) = ?Q * ?n - ?S * ?S"
  proof -
    have "Delta (analytical_fit sf sigmay Npoints y)
        = wrap64 (wrap64 (?Q * ?n) - wrap64 (?S * ?S))"
      by (simp add: analytical_fit_def Let_def q wQ) (simp add: x wS)
    also have "\<dots> = wrap64 (?Q * ?n - ?S * ?S)" by (rule wrap64_Delta)
    also have "\<dots> = ?Q * ?n - ?S * ?S" using Dpos Dup by (intro wrap64_id) simp_all
    finally show ?thesis .
  qed
  show "Delta (analytical_fit sf sigmay Npoints y)
      = sum_list (map (\<lambda>v. v * v) (x_array Npoints)) * int Npoints - (sum_list (x_array Npoints))\<^sup>2"
    unfolding D q' by (simp add: x power2_eq_square)
  show "0 < Delta (analytical_fit sf sigmay Npoints y)"
    unfolding D by (rule Dpos)
  show "wrap64 (sum_list (x_array Npoints)) = sum_list (x_array Npoints)"
    unfolding x by (rule wS)
  show "wrap64 (sum_list (map (\<lambda>v. wrap64 (v * v)) (x_array Npoints)))
      = sum_list (map (\<lambda>v. v * v) (x_array Npoints))"
    unfolding q q' by (rule wQ)
qed


lemma real_sums:
  "sum_list (map real_of_int xs) = real_of_int (sum_list xs)"
  "sum_list (map (\<lambda>v. v\<^sup>2) (map real_of_int xs)) = real_of_int (sum_list (map (\<lambda>v. v * v) xs))"
  "sum_list (map2 (*) (map real_of_int xs) y) = sum_list (map2 (\<lambda>v w. real_of_int v * w) xs y)"
proof -
  show "sum_list (map real_of_int xs) = real_of_int (sum_list xs)"
    by (rule of_int_sum_list_real)
  show "sum_list (map (\<lambda>v. v\<^sup>2) (map real_of_int xs)) = real_of_int (sum_list (map (\<lambda>v. v * v) xs))"
    by (induction xs) (simp_all add: power2_eq_square)
  show "sum_list (map2 (*) (map real_of_int xs) y) = sum_list (map2 (\<lambda>v w. real_of_int v * w) xs y)"
    by (simp add: zip_map1 split_def comp_def)
qed

lemma fit_fields:
  assumes "2 \<le> Npoints" "Npoints \<le> 100000"
  shows "alpha0_calc (analytical_fit sf sigmay Npoints y)
     = (sum_list y * sum_list (map (\<lambda>v. v\<^sup>2) (map real_of_int (x_array Npoints)))
          - sum_list (map2 (*) (map real_of_int (x_array Npoints)) y)
            * sum_list (map real_of_int (x_array Npoints)))
       / (sum_list (map (\<lambda>v. v\<^sup>2) (map real_of_int (x_array Npoints))) * real Npoints
          - (sum_list (map real_of_int (x_array Npoints)))\<^sup>2)"
    and "alpha1_calc (analytical_fit sf sigmay Npoints y)
     = (sum_list (map2 (*) (map real_of_int (x_array Npoints)) y) * real Npoints
          - sum_list y * sum_list (map real_of_int (x_array Npoints)))
       / (sum_list (map (\<lambda>v. v\<^sup>2) (map real_of_int (x_array Npoints))) * real Npoints
          - (sum_list (map real_of_int (x_array Npoints)))\<^sup>2)"
    and "sum_list (map (\<lambda>v. v\<^sup>2) (map real_of_int (x_array Npoints))) * real Npoints
          - (sum_list (map real_of_int (x_array Npoints)))\<^sup>2 \<noteq> 0"
proof -
  let ?r = "analytical_fit sf sigmay Npoints y"
  note P = Delta_plain [OF assms]
  have D: "real_of_int (Delta ?r)
      = sum_list (map (\<lambda>v. v\<^sup>2) (map real_of_int (x_array Npoints))) * real Npoints
        - (sum_list (map real_of_int (x_array Npoints)))\<^sup>2"
    unfolding P(1) real_sums by simp
  have a0: "alpha0_calc ?r
      = (sum_list y * real_of_int (sum_list (map (\<lambda>v. v * v) (x_array Npoints)))
          - sum_list (map2 (\<lambda>v w. real_of_int v * w) (x_array Npoints) y)
            * real_of_int (sum_list (x_array Npoints))) / real_of_int (Delta ?r)"
    by (simp add: analytical_fit_def Let_def P(3,4))
  have a1: "alpha1_calc ?r
      = (sum_list (map2 (\<lambda>v w. real_of_int v * w) (x_array Npoints) y) * real Npoints
          - sum_list y * real_of_int (sum_list (x_array Npoints))) / real_of_int (Delta ?r)"
    by (simp add: analytical_fit_def Let_def P(3))
  show "alpha0_calc ?r
     = (sum_list y * sum_list (map (\<lambda>v. v\<^sup>2) (map real_of_int (x_array Npoints)))
          - sum_list (map2 (*) (map real_of_int (x_array Npoints)) y)
            * sum_list (map real_of_int (x_array Npoints)))
       / (sum_list (map (\<lambda>v. v\<^sup>2) (map real_of_int (x_array Npoints))) * real Npoints
          - (sum_list (map real_of_int (x_array Npoints)))\<^sup>2)"
    unfolding a0 D real_sums ..
  show "alpha1_calc ?r
     = (sum_list (map2 (*) (map real_of_int (x_array Npoints)) y) * real Npoints
          - sum_list y * sum_list (map real_of_int (x_array Npoints)))
       / (sum_list (map (\<lambda>v. v\<^sup>2) (map real_of_int (x_array Npoints))) * real Npoints
          - (sum_list (map real_of_int (x_array Npoints)))\<^sup>2)"
    unfolding a1 D real_sums ..
  from P(2) [of sf sigmay y] have "real_of_int (Delta ?r) \<noteq> 0" by simp
  then show "sum_list (map (\<lambda>v. v\<^sup>2) (map real_of_int (x_array Npoints))) * real Npoints
          - (sum_list (map real_of_int (x_array Npoints)))\<^sup>2 \<noteq> 0"
    unfolding D .
qed

lemma fit_rest:
  "Ndof_calc (analytical_fit sf sigmay Npoints y) = int Npoints - 2"
  "Prob_calc (analytical_fit sf sigmay Npoints y)
     = sf (Chi2_calc (analytical_fit sf sigmay Npoints y)) (Ndof_calc (analytical_fit sf sigmay Npoints y))"
  by (simp_all add: analytical_fit_def Let_def)

lemma chi2_loop:
  "fold (\<lambda>i c. c + ((y ! i - (a + b * real_of_int (x_array n ! i))) / map (\<lambda>_. sigmay * 1) (x_array n) ! i)\<^sup>2)
      [0..<n] 0
     = chi2_line sigmay (map real_of_int (x_array n)) y a b"
proof -
  have "(\<Sum>i < n. ((y ! i - (a + b * real_of_int (x_array n ! i)))
          / map (\<lambda>_. sigmay * 1) (x_array n) ! i)\<^sup>2)
      = (\<Sum>i < n. ((y ! i - a - b * map real_of_int (x_array n) ! i) / sigmay)\<^sup>2)"
    by (rule sum.cong) (simp_all add: algebra_simps)
  then show ?thesis
    by (simp only: fold_add_sum sum_list_upt chi2_line_def add_0 length_map length_x_array)
qed

lemma fit_chi2:
  "Chi2_calc (analytical_fit sf sigmay Npoints y)
     = chi2_line sigmay (map real_of_int (x_array Npoints)) y
         (alpha0_calc (analytical_fit sf sigmay Npoints y))
         (alpha1_calc (analytical_fit sf sigmay Npoints y))"
  unfolding analytical_fit_def Let_def chi2_loop by simp


text \<open>
  Up to \<open>100000\<close> points no 64-bit result that is used wraps, and the computed
  parameters are the least-squares estimators.
\<close>

lemma analytical_fit_in_range:
  assumes n: "2 \<le> Npoints" "Npoints \<le> 100000" and len: "length y = Npoints"
  shows "let r = analytical_fit sf sigmay Npoints y; x = map real_of_int (x_array Npoints) in
      sum_list y = real Npoints * alpha0_calc r + alpha1_calc r * sum_list x
    \<and> sum_list (map2 (*) x y)
        = alpha0_calc r * sum_list x + alpha1_calc r * sum_list (map (\<lambda>v. v\<^sup>2) x)
    \<and> Chi2_calc r = (\<Sum>i < Npoints. ((y ! i - alpha0_calc r - alpha1_calc r * x ! i) / sigmay)\<^sup>2)
    \<and> (\<forall>a b. Chi2_calc r \<le> (\<Sum>i < Npoints. ((y ! i - a - b * x ! i) / sigmay)\<^sup>2))
    \<and> Ndof_calc r = int Npoints - 2
    \<and> Prob_calc r = sf (Chi2_calc r) (Ndof_calc r)"
proof -
  let ?r = "analytical_fit sf sigmay Npoints y"
  let ?x = "map real_of_int (x_array Npoints)"
  note F = fit_fields(1,2) [OF n, where sf = sf and sigmay = sigmay and y = y]
  note F3 = fit_fields(3) [OF n]
  have lx: "length ?x = Npoints" by simp
  have n0: "sum_list y = real Npoints * alpha0_calc ?r + alpha1_calc ?r * sum_list ?x"
    unfolding F by (rule normal_eq_algebra(1) [OF F3, symmetric])
  have n1: "sum_list (map2 (*) ?x y)
      = alpha0_calc ?r * sum_list ?x + alpha1_calc ?r * sum_list (map (\<lambda>v. v\<^sup>2) ?x)"
    unfolding F by (rule normal_eq_algebra(2) [OF F3, symmetric])
  have chi: "Chi2_calc ?r
      = (\<Sum>i < Npoints. ((y ! i - alpha0_calc ?r - alpha1_calc ?r * ?x ! i) / sigmay)\<^sup>2)"
    by (simp only: fit_chi2 chi2_line_def lx)
  have len': "length y = length ?x" using len by simp
  have n0': "sum_list y = real (length ?x) * alpha0_calc ?r + alpha1_calc ?r * sum_list ?x"
    using n0 by (simp only: lx)
  have least: "Chi2_calc ?r \<le> (\<Sum>i < Npoints. ((y ! i - a - b * ?x ! i) / sigmay)\<^sup>2)" for a b
    using chi2_line_min [OF len' n0' n1, of sigmay a b] by (simp only: fit_chi2 chi2_line_def lx)
  show ?thesis
    unfolding Let_def using n0 n1 chi least fit_rest [of sf sigmay Npoints y] by blast
qed

text \<open>
  C5. For \<open>110000\<close> points the abscissas are non-degenerate:
  \<open>n \<Sum>x\<^sup>2 - (\<Sum>x)\<^sup>2\<close> is \<open>12200833332325000000\<close>. That number does not fit
  into 64 bits with sign, and the notebook's \<open>Delta\<close> wraps to
  \<open>-6245910741384551616\<close>, whatever the data \<open>y\<close> and \<open>sigmay\<close>. With all
  \<open>y = 1\<close> the computed intercept is about \<open>-1.95\<close> where the least-squares
  intercept is \<open>1\<close>: the first normal equation fails.
\<close>

theorem analytical_fit_int64_overflow:
  "int 110000 * sum_list (map (\<lambda>v. v * v) (x_array 110000)) - (sum_list (x_array 110000))\<^sup>2
      = 12200833332325000000
    \<and> Delta (analytical_fit sf sigmay 110000 y) = - 6245910741384551616
    \<and> alpha0_calc (analytical_fit sf 1 110000 (replicate 110000 1))
      = - (190638020817578125 / 97592355334133619)
    \<and> alpha1_calc (analytical_fit sf 1 110000 (replicate 110000 1)) = 0
    \<and> sum_list (replicate 110000 1)
      \<noteq> real 110000 * alpha0_calc (analytical_fit sf 1 110000 (replicate 110000 1))
        + alpha1_calc (analytical_fit sf 1 110000 (replicate 110000 1))
          * real_of_int (sum_list (x_array 110000))"
proof -
  have le: "(110000::nat) \<le> 2 ^ 31" by simp
  have q: "sum_list (map (\<lambda>v. v * v) (x_array 110000)) = 443672716685000"
    using sum_xx_closed [of 110000] by (simp add: x_array_plain [OF le] comp_def)
  have t: "int 110000 * sum_list (map (\<lambda>v. v * v) (x_array 110000)) - (sum_list (x_array 110000))\<^sup>2
      = 12200833332325000000"
    unfolding q sums_110000 by simp
  have y: "sum_list (replicate 110000 (1::real)) = 110000"
    by (simp only: sum_list_replicate)
  have ne: "sum_list (replicate 110000 1)
      \<noteq> real 110000 * alpha0_calc (analytical_fit sf 1 110000 (replicate 110000 1))
        + alpha1_calc (analytical_fit sf 1 110000 (replicate 110000 1))
          * real_of_int (sum_list (x_array 110000))"
    unfolding y fit_110000 sums_110000 by simp
  from t Delta_110000 [of sf sigmay y] fit_110000(2,3) [of sf] ne show ?thesis by blast
qed

subsection \<open>Profile of a two-dimensional histogram\<close>

lemma histogram_example:
  "histogram2d [1, 1, 1, 1] [- 1/2, - 1/2, 1/2, 1/2] (1, 2) ((0, 50), (- 1, 1))
     = Inr ([[2, 2]], [0, 50], [- 1, 0, 1])"
  by code_simp

lemma sqrt_quarter: "sqrt (1 / 4) = 1 / 2"
  by (simp add: real_sqrt_divide)

lemma profile_example:
  "profile_x [1, 1, 1, 1] [- 1/2, - 1/2, 1/2, 1/2] (1, 2) ((0, 50), (- 1, 1))
     = Inr ([25], [0], [1/4])"
  unfolding profile_x_def histogram_example
  by (simp add: centers_def mask_select_def mask_H_def wsums_def masked_wsums_def
      power2_eq_square sqrt_quarter)

lemma described_example:
  "profile_x_described [1, 1, 1, 1] [- 1/2, - 1/2, 1/2, 1/2] (1, 2) ((0, 50), (- 1, 1))
     = Inr ([25], [0], [1/2])"
  unfolding profile_x_described_def histogram_example
  by (simp add: centers_def wmean_def wvar_def lessThan_Suc power2_eq_square sqrt_quarter)

lemma length_linspace [simp]: "length (linspace lo hi n) = n + 1"
  by (simp add: linspace_def)

lemma length_centers [simp]: "length (centers e) = length e - 1"
  by (simp add: centers_def)







lemma wvar_nonneg: "0 \<le> wvar h c"
  by (simp add: wvar_def sum_nonneg divide_nonneg_nonneg)












text \<open>
  C1. The description of \<open>profile_x\<close> says that it returns, for each non-empty
  x-bin, the mean and the standard deviation of y. With four points in one x-bin, two in
  each of two y-bins centred at \<open>-1/2\<close> and \<open>1/2\<close>, the mean is \<open>0\<close> and the
  standard deviation is \<open>1/2\<close>; \<open>profile_x\<close> returns \<open>1/4\<close> in its third array,
  the standard deviation divided by the square root of the four entries of the bin.
\<close>

theorem profile_x_third_array_not_std:
  "profile_x [1, 1, 1, 1] [- 1/2, - 1/2, 1/2, 1/2] (1, 2) ((0, 50), (- 1, 1))
      = Inr ([25], [0], [1/4])
    \<and> profile_x_described [1, 1, 1, 1] [- 1/2, - 1/2, 1/2, 1/2] (1, 2) ((0, 50), (- 1, 1))
      = Inr ([25], [0], [1/2])
    \<and> profile_x [1, 1, 1, 1] [- 1/2, - 1/2, 1/2, 1/2] (1, 2) ((0, 50), (- 1, 1))
      \<noteq> profile_x_described [1, 1, 1, 1] [- 1/2, - 1/2, 1/2, 1/2] (1, 2) ((0, 50), (- 1, 1))"
  unfolding profile_example described_example by simp




subsection \<open>Fisher discriminant\<close>

lemma covmat_comb_value:
  "covmat_comb = [[2, 1, 1, 1], [1, 2, 1, 1], [1, 1, 2, 1], [1, 1, 1, 2]]"
  by code_simp

lemma covmat_comb_inv_value:
  "covmat_comb_inv = Inr [[4/5, - 1/5, - 1/5, - 1/5], [- 1/5, 4/5, - 1/5, - 1/5],
                          [- 1/5, - 1/5, 4/5, - 1/5], [- 1/5, - 1/5, - 1/5, 4/5]]"
  by code_simp

text \<open>
  C2 as stated: \<open>wf\<close> is the inverse of the combined covariance matrix applied to the
  difference of the two class means. For a data file with one Versicolor flower
  \<open>(6, 3, 4, 1)\<close> and one Virginica flower \<open>(6, 3, 5, 2)\<close> that product is
  \<open>\<plusminus>(-2/5, -2/5, 3/5, 3/5)\<close>, whichever way the difference is taken, and \<open>wf\<close> is
  \<open>(0, 1, 2, 3)\<close>.
\<close>

theorem wf_counterexample:
  "wf_described [[6, 3, 4, 1], [6, 3, 5, 2]] [1, 2] 1 2 = Some [2/5, 2/5, - 3/5, - 3/5]
    \<and> wf_described [[6, 3, 4, 1], [6, 3, 5, 2]] [1, 2] 2 1 = Some [- 2/5, - 2/5, 3/5, 3/5]
    \<and> wf_described [[6, 3, 4, 1], [6, 3, 5, 2]] [1, 2] 1 2 \<noteq> Some wf_fisher
    \<and> wf_described [[6, 3, 4, 1], [6, 3, 5, 2]] [1, 2] 2 1 \<noteq> Some wf_fisher"
proof -
  have a: "wf_described [[6, 3, 4, 1], [6, 3, 5, 2]] [1, 2] 1 2 = Some [2/5, 2/5, - 3/5, - 3/5]"
    by code_simp
  have b: "wf_described [[6, 3, 4, 1], [6, 3, 5, 2]] [1, 2] 2 1 = Some [- 2/5, - 2/5, 3/5, 3/5]"
    by code_simp
  show ?thesis
    unfolding a b by (simp add: wf_fisher_def)
qed

text \<open>
  C2 as the notebook computes it. The combined matrix is the sum of the two placeholder
  matrices, the all-ones matrix and the identity; it is nonsingular, so the inversion
  does not fail and returns its two-sided inverse; and \<open>wf\<close> is the fixed vector
  \<open>(0, 1, 2, 3)\<close>, which is computed neither from the inverse nor from the means.
\<close>

theorem wf_placeholder:
  "covmat_comb = mat_add (ones 4 4) (eye 4 4)
    \<and> (\<exists>B. covmat_comb_inv = Inr B \<and> matmul covmat_comb B = eye 4 4
          \<and> matmul B covmat_comb = eye 4 4)
    \<and> wf_fisher = [0, 1, 2, 3]"
proof -
  have l: "matmul covmat_comb [[4/5, - 1/5, - 1/5, - 1/5], [- 1/5, 4/5, - 1/5, - 1/5],
          [- 1/5, - 1/5, 4/5, - 1/5], [- 1/5, - 1/5, - 1/5, 4/5]] = eye 4 4"
    by code_simp
  have r: "matmul [[4/5, - 1/5, - 1/5, - 1/5], [- 1/5, 4/5, - 1/5, - 1/5],
          [- 1/5, - 1/5, 4/5, - 1/5], [- 1/5, - 1/5, - 1/5, 4/5]] covmat_comb = eye 4 4"
    by code_simp
  have c: "covmat_comb = mat_add (ones 4 4) (eye 4 4)"
    by (simp add: covmat_comb_def covmat_Vers_def covmat_Virg_def)
  have w: "wf_fisher = [0, 1, 2, 3]"
    by (simp add: wf_fisher_def)
  from covmat_comb_inv_value l r c w show ?thesis
    by blast
qed

subsection \<open>Accept/reject sampling\<close>

lemma try_step:
  "try_until_accept draws n (p0 + 2 * n) =
     (if accepted draws p0 n then Some (x_of draws p0 n, y_of draws p0 n, n + 1, p0 + 2 * (n + 1))
      else try_until_accept draws (n + 1) (p0 + 2 * (n + 1)))"
proof -
  have e: "p0 + 2 * n + 2 = p0 + 2 * (n + 1)" by simp
  show ?thesis
    by (subst try_until_accept.simps) (simp only: Let_def accepted_def x_of_def y_of_def e)
qed

lemma try_returns:
  assumes "accepted draws p0 (n + j)" "\<forall>i < j. \<not> accepted draws p0 (n + i)"
  shows "try_until_accept draws n (p0 + 2 * n) = Some (x_of draws p0 (n + j), y_of draws p0 (n + j), n + j + 1, p0 + 2 * (n + j + 1))"
  using assms
proof (induction j arbitrary: n)
  case 0
  then show ?case by (simp only: try_step [of draws n p0] add_0_right if_True)
next
  case (Suc j)
  from Suc.prems(2) have no: "\<not> accepted draws p0 n" by force
  have a: "accepted draws p0 (n + 1 + j)" using Suc.prems(1) by simp
  have b: "\<forall>i < j. \<not> accepted draws p0 (n + 1 + i)"
  proof (intro allI impI)
    fix i assume "i < j"
    then have "Suc i < Suc j" by simp
    with Suc.prems(2) have "\<not> accepted draws p0 (n + Suc i)" by blast
    then show "\<not> accepted draws p0 (n + 1 + i)" by simp
  qed
  have "try_until_accept draws (n + 1) (p0 + 2 * (n + 1))
      = Some (x_of draws p0 (n + 1 + j), y_of draws p0 (n + 1 + j), n + 1 + j + 1, p0 + 2 * (n + 1 + j + 1))"
    using a b by (rule Suc.IH)
  moreover have "n + 1 + j = n + Suc j" by simp
  ultimately show ?case
    using no by (simp only: try_step [of draws n p0] if_False)
qed



lemma try_result:
  assumes "try_until_accept draws n p = Some r"
  shows "\<forall>p0. p = p0 + 2 * n \<longrightarrow>
    (\<exists>j. r = (x_of draws p0 (n + j), y_of draws p0 (n + j), n + j + 1, p0 + 2 * (n + j + 1))
      \<and> accepted draws p0 (n + j) \<and> (\<forall>i < j. \<not> accepted draws p0 (n + i)))"
proof (rule try_until_accept.raw_induct [OF _ assms])
  fix f :: "(nat \<Rightarrow> real) \<Rightarrow> nat \<Rightarrow> nat \<Rightarrow> (real \<times> real \<times> nat \<times> nat) option"
    and draws n p r
  assume IH: "\<And>draws n p r. f draws n p = Some r \<Longrightarrow>
      \<forall>p0. p = p0 + 2 * n \<longrightarrow>
        (\<exists>j. r = (x_of draws p0 (n + j), y_of draws p0 (n + j), n + j + 1, p0 + 2 * (n + j + 1))
          \<and> accepted draws p0 (n + j) \<and> (\<forall>i < j. \<not> accepted draws p0 (n + i)))"
    and step: "(let N_try' = n + 1; x_test = uniform xmin xmax (draws p);
          y_test = uniform ymin ymax (draws (p + 1))
      in if y_test < 2 * x_test then Some (x_test, y_test, N_try', p + 2)
         else f draws N_try' (p + 2)) = Some r"
  show "\<forall>p0. p = p0 + 2 * n \<longrightarrow>
    (\<exists>j. r = (x_of draws p0 (n + j), y_of draws p0 (n + j), n + j + 1, p0 + 2 * (n + j + 1))
      \<and> accepted draws p0 (n + j) \<and> (\<forall>i < j. \<not> accepted draws p0 (n + i)))"
  proof (intro allI impI)
    fix p0 assume p: "p = p0 + 2 * n"
    show "\<exists>j. r = (x_of draws p0 (n + j), y_of draws p0 (n + j), n + j + 1, p0 + 2 * (n + j + 1))
      \<and> accepted draws p0 (n + j) \<and> (\<forall>i < j. \<not> accepted draws p0 (n + i))"
    proof (cases "accepted draws p0 n")
      case True
      with step p have "r = (x_of draws p0 n, y_of draws p0 n, n + 1, p0 + 2 * (n + 1))"
        by (simp add: Let_def accepted_def x_of_def y_of_def)
      with True show ?thesis
        by (intro exI [of _ 0]) simp
    next
      case False
      with step p have "f draws (n + 1) (p + 2) = Some r"
        by (simp add: Let_def accepted_def x_of_def y_of_def)
      from IH [OF this] p obtain j where
        j: "r = (x_of draws p0 (n + 1 + j), y_of draws p0 (n + 1 + j), n + 1 + j + 1, p0 + 2 * (n + 1 + j + 1))"
          "accepted draws p0 (n + 1 + j)" "\<forall>i < j. \<not> accepted draws p0 (n + 1 + i)"
        by auto
      have "\<not> accepted draws p0 (n + i)" if "i < Suc j" for i
      proof (cases i)
        case 0
        with False show ?thesis by simp
      next
        case (Suc i')
        with that j(3) have "\<not> accepted draws p0 (n + 1 + i')" by simp
        with Suc show ?thesis by simp
      qed
      with j(1,2) show ?thesis
        by (intro exI [of _ "Suc j"]) simp
    qed
  qed
qed

lemma tries_ok_Cons:
  assumes acc: "accepted draws p0 (lo + j)" and rej: "\<forall>i < j. \<not> accepted draws p0 (lo + i)"
    and rest: "tries_ok draws p0 (lo + j + 1) hi ks"
  shows "tries_ok draws p0 lo hi ((lo + j) # ks)"
proof -
  from rest have s: "sorted_wrt (<) ks" and b: "\<forall>k \<in> set ks. lo + j + 1 \<le> k \<and> k < hi"
    and a: "\<forall>k. lo + j + 1 \<le> k \<and> k < hi \<longrightarrow> (accepted draws p0 k \<longleftrightarrow> k \<in> set ks)"
    and le: "lo + j + 1 \<le> hi" and hi: "hi = (if ks = [] then lo + j + 1 else last ks + 1)"
    unfolding tries_ok_def by blast+
  have 1: "sorted_wrt (<) ((lo + j) # ks)"
    using s b by auto
  have 2: "\<forall>k \<in> set ((lo + j) # ks). lo \<le> k \<and> k < hi"
    using b le by auto
  have 3: "accepted draws p0 k \<longleftrightarrow> k \<in> set ((lo + j) # ks)" if "lo \<le> k" "k < hi" for k
  proof -
    consider "k < lo + j" | "k = lo + j" | "lo + j + 1 \<le> k" by linarith
    then show ?thesis
    proof cases
      case 1
      with that(1) obtain i where "k = lo + i" "i < j"
        by (metis le_Suc_ex nat_add_left_cancel_less)
      with rej have "\<not> accepted draws p0 k" by simp
      moreover from 1 b have "k \<notin> set ((lo + j) # ks)" by auto
      ultimately show ?thesis by simp
    next
      case 2
      with acc show ?thesis by simp
    next
      case 3
      with a that(2) have "accepted draws p0 k \<longleftrightarrow> k \<in> set ks" by simp
      with 3 show ?thesis by auto
    qed
  qed
  have 4: "hi = (if (lo + j) # ks = [] then lo else last ((lo + j) # ks) + 1)"
    using hi by simp
  from 1 2 3 4 le show ?thesis
    by (simp add: tries_ok_def)
qed

lemma sample_points_spec:
  assumes "sample_points draws is s = Some s'" and "drawn s = p0 + 2 * N_try s"
  shows "\<exists>ks. length ks = length is \<and> tries_ok draws p0 (N_try s) (N_try s') ks
    \<and> drawn s' = p0 + 2 * N_try s'
    \<and> x_accepted s' = fold (\<lambda>(i, k) xs. xs[i := x_of draws p0 k]) (zip is ks) (x_accepted s)
    \<and> var_i s' = (if is = [] then var_i s else Some (last is))
    \<and> var_x_test s' = (if ks = [] then var_x_test s else Some (x_of draws p0 (last ks)))
    \<and> var_y_test s' = (if ks = [] then var_y_test s else Some (y_of draws p0 (last ks)))"
  using assms
proof (induction "is" arbitrary: s)
  case Nil
  then show ?case by (auto simp add: tries_ok_def)
next
  case (Cons i "is")
  from Cons.prems(1) obtain x yv n p where
    t: "try_until_accept draws (N_try s) (drawn s) = Some (x, yv, n, p)"
    and r: "sample_points draws is
        (s\<lparr>N_try := n, x_accepted := (x_accepted s)[i := x], drawn := p,
           var_i := Some i, var_x_test := Some x, var_y_test := Some yv\<rparr>) = Some s'"
    by (auto split: option.splits)
  let ?s1 = "s\<lparr>N_try := n, x_accepted := (x_accepted s)[i := x], drawn := p,
           var_i := Some i, var_x_test := Some x, var_y_test := Some yv\<rparr>"
  from try_result [OF t] Cons.prems(2) obtain j where
    j: "x = x_of draws p0 (N_try s + j)" "yv = y_of draws p0 (N_try s + j)"
      "n = N_try s + j + 1" "p = p0 + 2 * (N_try s + j + 1)"
      "accepted draws p0 (N_try s + j)" "\<forall>i < j. \<not> accepted draws p0 (N_try s + i)"
    by auto
  have d1: "drawn ?s1 = p0 + 2 * N_try ?s1" using j(3,4) by simp
  from Cons.IH [OF r d1] obtain ks where
    ks: "length ks = length is" "tries_ok draws p0 n (N_try s') ks"
      "drawn s' = p0 + 2 * N_try s'"
      "x_accepted s' = fold (\<lambda>(i, k) xs. xs[i := x_of draws p0 k]) (zip is ks)
          ((x_accepted s)[i := x])"
      "var_i s' = (if is = [] then Some i else Some (last is))"
      "var_x_test s' = (if ks = [] then Some x else Some (x_of draws p0 (last ks)))"
      "var_y_test s' = (if ks = [] then Some yv else Some (y_of draws p0 (last ks)))"
    by auto
  have "tries_ok draws p0 (N_try s) (N_try s') ((N_try s + j) # ks)"
    using j(5,6) ks(2) unfolding j(3) by (rule tries_ok_Cons)
  with ks(1,3,4,5,6,7) j(1,2) show ?case
    by (intro exI [of _ "(N_try s + j) # ks"]) simp
qed

lemma fold_assign_upt:
  assumes "length ks \<le> length xs"
  shows "fold (\<lambda>(i, k) xs. xs[i := g k]) (zip [0..<length ks] ks) xs
    = map g ks @ drop (length ks) xs"
  using assms
proof (induction ks rule: rev_induct)
  case Nil
  then show ?case by simp
next
  case (snoc k ks)
  then have len: "length ks < length xs" by simp
  have z: "zip [0..<length (ks @ [k])] (ks @ [k]) = zip [0..<length ks] ks @ [(length ks, k)]"
    by simp
  have "fold (\<lambda>(i, k) xs. xs[i := g k]) (zip [0..<length (ks @ [k])] (ks @ [k])) xs
      = (map g ks @ drop (length ks) xs)[length ks := g k]"
    unfolding z using snoc.IH len by simp
  also have "\<dots> = map g ks @ (drop (length ks) xs)[0 := g k]"
    by (simp add: list_update_append)
  also have "drop (length ks) xs = xs ! length ks # drop (Suc (length ks)) xs"
    using len by (simp add: Cons_nth_drop_Suc)
  finally show ?case by simp
qed

lemma sample_points_returns:
  assumes "drawn s = p0 + 2 * N_try s"
    and "length ks = length is" "sorted_wrt (<) ks"
    and "\<forall>k \<in> set ks. N_try s \<le> k \<and> accepted draws p0 k"
  shows "\<exists>s'. sample_points draws is s = Some s'"
  using assms
proof (induction "is" arbitrary: s ks)
  case Nil
  show ?case by simp
next
  case (Cons i "is")
  from Cons.prems(2) obtain k0 ks' where ks: "ks = k0 # ks'" "length ks' = length is"
    by (cases ks) auto
  from Cons.prems(4) ks have k0: "N_try s \<le> k0" "accepted draws p0 k0" by simp_all
  define m where "m = (LEAST m. N_try s \<le> m \<and> accepted draws p0 m)"
  have m: "N_try s \<le> m \<and> accepted draws p0 m"
    unfolding m_def by (rule LeastI [of _ k0]) (simp add: k0)
  have least: "\<not> (N_try s \<le> k \<and> accepted draws p0 k)" if "k < m" for k
    using that unfolding m_def by (rule not_less_Least)
  have mk: "m \<le> k0"
    unfolding m_def by (rule Least_le) (simp add: k0)
  from m obtain j where j: "m = N_try s + j"
    by (auto simp add: le_iff_add)
  have rej: "\<forall>i < j. \<not> accepted draws p0 (N_try s + i)"
    using least j by simp
  from m j have acc: "accepted draws p0 (N_try s + j)" by simp
  have t: "try_until_accept draws (N_try s) (drawn s)
      = Some (x_of draws p0 m, y_of draws p0 m, m + 1, p0 + 2 * (m + 1))"
    unfolding Cons.prems(1) j by (rule try_returns [OF acc rej])
  let ?s1 = "s\<lparr>N_try := m + 1, x_accepted := (x_accepted s)[i := x_of draws p0 m],
      drawn := p0 + 2 * (m + 1), var_i := Some i, var_x_test := Some (x_of draws p0 m),
      var_y_test := Some (y_of draws p0 m)\<rparr>"
  have d1: "drawn ?s1 = p0 + 2 * N_try ?s1" by simp
  have s1: "sorted_wrt (<) ks'" using Cons.prems(3) ks by simp
  have "\<forall>k \<in> set ks'. N_try ?s1 \<le> k \<and> accepted draws p0 k"
  proof
    fix k assume k: "k \<in> set ks'"
    with Cons.prems(3) ks have "k0 < k" by simp
    with mk have "m + 1 \<le> k" by simp
    moreover from k Cons.prems(4) ks have "accepted draws p0 k" by simp
    ultimately show "N_try ?s1 \<le> k \<and> accepted draws p0 k" by simp
  qed
  from Cons.IH [OF d1 ks(2) s1 this] obtain s' where
    "sample_points draws is ?s1 = Some s'" ..
  with t show ?case by simp
qed

lemma x_of_range:
  assumes "0 \<le> draws (p0 + 2 * k)" "draws (p0 + 2 * k) < 1"
  shows "xmin \<le> x_of draws p0 k \<and> x_of draws p0 k \<le> xmax"
  using assms by (simp add: x_of_def uniform_def xmin_def xmax_def)

lemma upt_two: "[0..<2] = [0, Suc 0]"
  by (simp add: upt_conv_Cons)

lemma example_tries:
  "\<not> accepted example_draws 0 0" "accepted example_draws 0 1" "accepted example_draws 0 2"
  by (simp_all add: accepted_def x_of_def y_of_def uniform_def xmin_def xmax_def ymin_def
      ymax_def example_draws_def)

lemma replicate_two: "replicate 2 x = [x, x]"
  by (simp add: numeral_2_eq_2)

lemma example_values:
  "x_of example_draws 0 (Suc 0) = 1/2" "y_of example_draws 0 (Suc 0) = 1/2"
  "x_of example_draws 0 2 = 1/2" "y_of example_draws 0 2 = 1/2"
  by (simp_all add: x_of_def y_of_def uniform_def xmin_def xmax_def ymin_def ymax_def
      example_draws_def)

lemma example_first:
  "try_until_accept example_draws 0 0 = Some (1/2, 1/2, 2, 4)"
proof -
  have "accepted example_draws 0 (0 + 1)" using example_tries(2) by simp
  moreover have "\<forall>i < 1. \<not> accepted example_draws 0 (0 + i)"
    using example_tries(1) by simp
  ultimately have "try_until_accept example_draws 0 (0 + 2 * 0)
      = Some (x_of example_draws 0 (0 + 1), y_of example_draws 0 (0 + 1), 0 + 1 + 1,
          0 + 2 * (0 + 1 + 1))"
    by (rule try_returns)
  then show ?thesis by (simp add: example_values)
qed

lemma example_second:
  "try_until_accept example_draws 2 4 = Some (1/2, 1/2, 3, 6)"
proof -
  have "accepted example_draws 0 (2 + 0)" using example_tries(3) by simp
  moreover have "\<forall>i < 0. \<not> accepted example_draws 0 (2 + i)" by simp
  ultimately have "try_until_accept example_draws 2 (0 + 2 * 2)
      = Some (x_of example_draws 0 (2 + 0), y_of example_draws 0 (2 + 0), 2 + 0 + 1,
          0 + 2 * (2 + 0 + 1))"
    by (rule try_returns)
  then show ?thesis by (simp add: example_values)
qed

lemma example_run:
  "accept_reject example_draws 2 0
     = Some \<lparr>N_try = 3, x_accepted = [1/2, 1/2], drawn = 6,
         var_i = Some 1, var_x_test = Some (1/2), var_y_test = Some (1/2)\<rparr>"
  unfolding accept_reject_def upt_two replicate_two
  by (simp add: example_first example_second)

text \<open>
  C6 as stated: the run touches no state other than \<open>x_accepted\<close> and the try counter
  \<open>N_try\<close>. It does not hold. Already a run for two points, whose first try is
  rejected, advances the generator by six variates and leaves the global variables
  \<open>i\<close>, \<open>x_test\<close> and \<open>y_test\<close>, unbound before the cell, bound to \<open>1\<close>, \<open>0.5\<close>
  and \<open>0.5\<close>.
\<close>

theorem accept_reject_frame_counterexample:
  "accept_reject example_draws 2 0
     = Some \<lparr>N_try = 3, x_accepted = [1/2, 1/2], drawn = 6,
         var_i = Some 1, var_x_test = Some (1/2), var_y_test = Some (1/2)\<rparr>
   \<and> map_option (\<lambda>s. (drawn s, var_i s, var_x_test s, var_y_test s))
         (accept_reject example_draws 2 0) \<noteq> Some (0, None, None, None)"
  by (simp add: example_run)

text \<open>
  C6 as the notebook computes it. A run returns exactly when the sequence of variates
  holds \<open>N_points\<close> accepted tries. When it returns, \<open>x_accepted\<close> has \<open>N_points\<close>
  entries; entry \<open>i\<close> is the candidate \<open>x_test\<close> of the \<open>i\<close>-th accepted try, a value
  between \<open>xmin\<close> and \<open>xmax\<close> whose envelope draw \<open>y_test\<close> from \<open>[ymin, ymax]\<close>
  satisfied \<open>y_test < 2 x_test\<close>; every other try up to the last one was rejected and
  left no entry; \<open>N_try\<close> counts all tries. Besides \<open>x_accepted\<close> and \<open>N_try\<close> the
  run changes exactly this: the generator has advanced by two variates per try, and the
  global variables \<open>i\<close>, \<open>x_test\<close> and \<open>y_test\<close> hold the last index
  \<open>N_points - 1\<close> and the candidate and envelope draw of the last try (they stay as
  they were when \<open>N_points\<close> is zero).
\<close>

theorem accept_reject_sampler:
  assumes "\<forall>p. 0 \<le> draws p \<and> draws p < 1"
  shows "((\<exists>s. accept_reject draws N_points p0 = Some s)
        \<longleftrightarrow> (\<exists>ks. length ks = N_points \<and> sorted_wrt (<) ks \<and> (\<forall>k \<in> set ks. accepted draws p0 k)))
    \<and> (\<forall>s. accept_reject draws N_points p0 = Some s \<longrightarrow>
          length (x_accepted s) = N_points
        \<and> drawn s = p0 + 2 * N_try s
        \<and> (\<forall>x \<in> set (x_accepted s). xmin \<le> x \<and> x \<le> xmax)
        \<and> (\<exists>ks. length ks = N_points \<and> x_accepted s = map (x_of draws p0) ks
              \<and> sorted_wrt (<) ks
              \<and> (\<forall>k < N_try s. accepted draws p0 k \<longleftrightarrow> k \<in> set ks)
              \<and> (\<forall>k \<in> set ks. k < N_try s)
              \<and> N_try s = (if ks = [] then 0 else last ks + 1))
        \<and> var_i s = (if N_points = 0 then None else Some (N_points - 1))
        \<and> var_x_test s = (if N_points = 0 then None else Some (x_of draws p0 (N_try s - 1)))
        \<and> var_y_test s = (if N_points = 0 then None else Some (y_of draws p0 (N_try s - 1)))
        \<and> (0 < N_points \<longrightarrow> accepted draws p0 (N_try s - 1)
              \<and> last (x_accepted s) = x_of draws p0 (N_try s - 1)))"
proof -
  let ?s0 = "\<lparr>N_try = 0, x_accepted = replicate N_points 0, drawn = p0,
      var_i = None, var_x_test = None, var_y_test = None\<rparr>"
  have d0: "drawn ?s0 = p0 + 2 * N_try ?s0" by simp
  have post: "length (x_accepted s) = N_points
        \<and> drawn s = p0 + 2 * N_try s
        \<and> (\<forall>x \<in> set (x_accepted s). xmin \<le> x \<and> x \<le> xmax)
        \<and> (\<exists>ks. length ks = N_points \<and> x_accepted s = map (x_of draws p0) ks
              \<and> sorted_wrt (<) ks
              \<and> (\<forall>k < N_try s. accepted draws p0 k \<longleftrightarrow> k \<in> set ks)
              \<and> (\<forall>k \<in> set ks. k < N_try s)
              \<and> N_try s = (if ks = [] then 0 else last ks + 1))
        \<and> var_i s = (if N_points = 0 then None else Some (N_points - 1))
        \<and> var_x_test s = (if N_points = 0 then None else Some (x_of draws p0 (N_try s - 1)))
        \<and> var_y_test s = (if N_points = 0 then None else Some (y_of draws p0 (N_try s - 1)))
        \<and> (0 < N_points \<longrightarrow> accepted draws p0 (N_try s - 1)
              \<and> last (x_accepted s) = x_of draws p0 (N_try s - 1))"
    if run: "accept_reject draws N_points p0 = Some s" for s
  proof -
    from run have "sample_points draws [0..<N_points] ?s0 = Some s"
      by (simp add: accept_reject_def)
    from sample_points_spec [OF this d0] obtain ks where
      ks: "length ks = N_points" "tries_ok draws p0 0 (N_try s) ks" "drawn s = p0 + 2 * N_try s"
        "x_accepted s = fold (\<lambda>(i, k) xs. xs[i := x_of draws p0 k]) (zip [0..<N_points] ks)
            (replicate N_points 0)"
        "var_i s = (if [0..<N_points] = [] then None else Some (last [0..<N_points]))"
        "var_x_test s = (if ks = [] then None else Some (x_of draws p0 (last ks)))"
        "var_y_test s = (if ks = [] then None else Some (y_of draws p0 (last ks)))"
      by auto
    have xs: "x_accepted s = map (x_of draws p0) ks"
      using fold_assign_upt [of ks "replicate N_points 0" "x_of draws p0"] ks(1,4) by simp
    have rng: "\<forall>x \<in> set (x_accepted s). xmin \<le> x \<and> x \<le> xmax"
      unfolding xs using x_of_range [of draws p0] assms by auto
    from ks(2) have t: "sorted_wrt (<) ks" "\<forall>k < N_try s. accepted draws p0 k \<longleftrightarrow> k \<in> set ks"
      "\<forall>k \<in> set ks. k < N_try s" "N_try s = (if ks = [] then 0 else last ks + 1)"
      unfolding tries_ok_def by auto
    have e: "ks = [] \<longleftrightarrow> N_points = 0" using ks(1) by auto
    have vi: "var_i s = (if N_points = 0 then None else Some (N_points - 1))"
    proof (cases N_points)
      case 0
      then show ?thesis using ks(5) by simp
    next
      case (Suc n)
      then show ?thesis using ks(5) by simp
    qed
    have l: "last ks = N_try s - 1" if "N_points \<noteq> 0"
      using that t(4) e by simp
    have vx: "var_x_test s = (if N_points = 0 then None else Some (x_of draws p0 (N_try s - 1)))"
      using ks(6) e l by simp
    have vy: "var_y_test s = (if N_points = 0 then None else Some (y_of draws p0 (N_try s - 1)))"
      using ks(7) e l by simp
    have la: "accepted draws p0 (N_try s - 1) \<and> last (x_accepted s) = x_of draws p0 (N_try s - 1)"
      if n: "0 < N_points"
    proof -
      from n e have ne: "ks \<noteq> []" by simp
      then have "last ks \<in> set ks" by simp
      moreover from ne t(4) have "last ks < N_try s" by simp
      ultimately have "accepted draws p0 (last ks)" using t(2) by blast
      moreover have "last (x_accepted s) = x_of draws p0 (last ks)"
        unfolding xs using ne by (simp add: last_map)
      ultimately show ?thesis using l n by simp
    qed
    have len: "length (x_accepted s) = N_points" using xs ks(1) by simp
    have ex: "\<exists>ks. length ks = N_points \<and> x_accepted s = map (x_of draws p0) ks
              \<and> sorted_wrt (<) ks
              \<and> (\<forall>k < N_try s. accepted draws p0 k \<longleftrightarrow> k \<in> set ks)
              \<and> (\<forall>k \<in> set ks. k < N_try s)
              \<and> N_try s = (if ks = [] then 0 else last ks + 1)"
      using ks(1) xs t by blast
    have la': "0 < N_points \<longrightarrow> accepted draws p0 (N_try s - 1)
              \<and> last (x_accepted s) = x_of draws p0 (N_try s - 1)"
      using la by blast
    from len ks(3) rng ex vi vx vy la' show ?thesis by (intro conjI)
  qed
  have ret: "\<exists>s. accept_reject draws N_points p0 = Some s"
    if "length ks = N_points" "sorted_wrt (<) ks" "\<forall>k \<in> set ks. accepted draws p0 k" for ks
    using sample_points_returns [OF d0, of ks "[0..<N_points]" draws] that
    by (simp add: accept_reject_def)
  have "(\<exists>s. accept_reject draws N_points p0 = Some s)
      \<longleftrightarrow> (\<exists>ks. length ks = N_points \<and> sorted_wrt (<) ks \<and> (\<forall>k \<in> set ks. accepted draws p0 k))"
  proof (rule iffI)
    assume "\<exists>s. accept_reject draws N_points p0 = Some s"
    then obtain s where "accept_reject draws N_points p0 = Some s" ..
    from post [OF this] obtain ks where "length ks = N_points" "sorted_wrt (<) ks"
      "\<forall>k < N_try s. accepted draws p0 k \<longleftrightarrow> k \<in> set ks" "\<forall>k \<in> set ks. k < N_try s"
      by auto
    then show "\<exists>ks. length ks = N_points \<and> sorted_wrt (<) ks \<and> (\<forall>k \<in> set ks. accepted draws p0 k)"
      by blast
  next
    assume "\<exists>ks. length ks = N_points \<and> sorted_wrt (<) ks \<and> (\<forall>k \<in> set ks. accepted draws p0 k)"
    with ret show "\<exists>s. accept_reject draws N_points p0 = Some s" by blast
  qed
  moreover have "\<forall>s. accept_reject draws N_points p0 = Some s \<longrightarrow>
          length (x_accepted s) = N_points
        \<and> drawn s = p0 + 2 * N_try s
        \<and> (\<forall>x \<in> set (x_accepted s). xmin \<le> x \<and> x \<le> xmax)
        \<and> (\<exists>ks. length ks = N_points \<and> x_accepted s = map (x_of draws p0) ks
              \<and> sorted_wrt (<) ks
              \<and> (\<forall>k < N_try s. accepted draws p0 k \<longleftrightarrow> k \<in> set ks)
              \<and> (\<forall>k \<in> set ks. k < N_try s)
              \<and> N_try s = (if ks = [] then 0 else last ks + 1))
        \<and> var_i s = (if N_points = 0 then None else Some (N_points - 1))
        \<and> var_x_test s = (if N_points = 0 then None else Some (x_of draws p0 (N_try s - 1)))
        \<and> var_y_test s = (if N_points = 0 then None else Some (y_of draws p0 (N_try s - 1)))
        \<and> (0 < N_points \<longrightarrow> accepted draws p0 (N_try s - 1)
              \<and> last (x_accepted s) = x_of draws p0 (N_try s - 1))"
    using post by (intro allI impI)
  ultimately show ?thesis by (rule conjI)
qed

theorem accept_reject_sampler_witness:
  "(\<forall>p. 0 \<le> example_draws p \<and> example_draws p < 1)
    \<and> \<not> accepted example_draws 0 0
    \<and> (\<exists>s. accept_reject example_draws 2 0 = Some s
          \<and> length (x_accepted s) = 2 \<and> drawn s = 0 + 2 * N_try s
          \<and> (\<forall>x \<in> set (x_accepted s). xmin \<le> x \<and> x \<le> xmax)
          \<and> var_i s = Some 1
          \<and> var_x_test s = Some (x_of example_draws 0 (N_try s - 1))
          \<and> var_y_test s = Some (y_of example_draws 0 (N_try s - 1))
          \<and> accepted example_draws 0 (N_try s - 1))"
proof -
  have h: "\<forall>p. 0 \<le> example_draws p \<and> example_draws p < 1"
    by (simp add: example_draws_def)
  have "\<exists>ks. length ks = 2 \<and> sorted_wrt (<) ks \<and> (\<forall>k \<in> set ks. accepted example_draws 0 k)"
    using example_tries(2,3) by (intro exI [of _ "[1, 2]"]) simp
  with accept_reject_sampler [OF h, of 2 0] obtain s where
    s: "accept_reject example_draws 2 0 = Some s" by blast
  note post = accept_reject_sampler [OF h, of 2 0, THEN conjunct2, rule_format, OF s]
  have l: "length (x_accepted s) = 2" "drawn s = 0 + 2 * N_try s"
    "\<forall>x \<in> set (x_accepted s). xmin \<le> x \<and> x \<le> xmax"
    using post by blast+
  have v: "var_i s = Some 1"
    "var_x_test s = Some (x_of example_draws 0 (N_try s - 1))"
    "var_y_test s = Some (y_of example_draws 0 (N_try s - 1))"
    "accepted example_draws 0 (N_try s - 1)"
    using post by simp_all
  have "length (x_accepted s) = 2 \<and> drawn s = 0 + 2 * N_try s
      \<and> (\<forall>x \<in> set (x_accepted s). xmin \<le> x \<and> x \<le> xmax)
      \<and> var_i s = Some 1
      \<and> var_x_test s = Some (x_of example_draws 0 (N_try s - 1))
      \<and> var_y_test s = Some (y_of example_draws 0 (N_try s - 1))
      \<and> accepted example_draws 0 (N_try s - 1)"
    using l v by (intro conjI)
  with s h example_tries(1) show ?thesis by blast
qed

subsection \<open>Saving figures\<close>

text \<open>
  C4. With the flag off neither cell writes a file. With the flag on, the cell of the
  pi-estimate notebook writes \<open>HitDist.pdf\<close>, while the cell of the calibration notebook
  raises \<open>NameError\<close> for \<open>fig_rel\<close>, a name that nothing binds (the figure is
  \<open>fig_RD\<close>), and writes no file.
\<close>

theorem cell_RD_savefig_unbound_figure:
  "cell_RD True calibration_before_RD = Inl (NameError ''fig_rel'')
    \<and> map_sum id files (cell_RD False calibration_before_RD) = Inr []
    \<and> map_sum id files (cell_HitDist False pi_before_HitDist) = Inr []
    \<and> map_sum id files (cell_HitDist True pi_before_HitDist) = Inr [''HitDist.pdf'']"
  by (simp add: cell_RD_def cell_HitDist_def calibration_before_RD_def pi_before_HitDist_def
      bind_names_def savefig_def)

end
